theory Spec2Isabelle
  imports Complex_Main "HOL-Library.Multiset"
begin

section \<open>Agent table\<close>

text \<open>
  PopulationSimulation.py keeps every individual as a dictionary with eight keys. The
  values are what \<^verbatim>\<open>load_population\<close> and the generators put there: \<^verbatim>\<open>sex\<close> is a
  string, every other field a Python integer (\<^verbatim>\<open>alive\<close> and \<^verbatim>\<open>fertility\<close> are the
  integers 0/1, \<^verbatim>\<open>partner_id\<close> is -1 for a single person).

  The population is a list of such dictionaries. The code hands out references to the
  dictionaries (singles, pairs, couples) and mutates through them; every dictionary of
  the list is a distinct object (the loader, the generator and \<^verbatim>\<open>reproduce\<close> create a
  fresh one per row), so a reference is modelled by the position of the dictionary in
  the list.
\<close>

record agent =
  agent_id :: int
  sex :: string
  age :: int
  alive :: int
  health :: int
  fertility :: int
  partner_id :: int
  children_count :: int

type_synonym population = "agent list"

text \<open>A row written in the column order of the CSV file.\<close>

definition person :: "int \<Rightarrow> string \<Rightarrow> int \<Rightarrow> int \<Rightarrow> int \<Rightarrow> int \<Rightarrow> int \<Rightarrow> int \<Rightarrow> agent" where
  "person i s a al h f pid c =
     \<lparr>agent_id = i, sex = s, age = a, alive = al, health = h, fertility = f,
      partner_id = pid, children_count = c\<rparr>"

datatype error = FileNotFoundError | IndexError | ValueError | StopIteration

section \<open>Entropy source\<close>

text \<open>
  The module-level generator of Python's \<^verbatim>\<open>random\<close> is the one shared, sequential
  entropy source. It is modelled as the stream of raw values it will produce, one raw
  value per library call; the library functions read the head and return the tail.
  \<^verbatim>\<open>random.random()\<close> is a multiple of 2^-53 in [0, 1), \<^verbatim>\<open>random.randint(a, b)\<close> lies
  in [a, b].
\<close>

type_synonym rng = "nat \<Rightarrow> nat"

definition rng_tail :: "rng \<Rightarrow> rng" where
  "rng_tail g = (\<lambda>k. g (Suc k))"

definition py_random :: "rng \<Rightarrow> real \<times> rng" where
  "py_random g = (real (g 0 mod 2 ^ 53) / 2 ^ 53, rng_tail g)"

definition py_randint :: "int \<Rightarrow> int \<Rightarrow> rng \<Rightarrow> int \<times> rng" where
  "py_randint a b g = (a + int (g 0) mod (b - a + 1), rng_tail g)"

section \<open>Vital-rate engine\<close>

text \<open>
  A float literal of the source denotes the double nearest to it, a 53-bit integer
  times a power of two, and \<^verbatim>\<open><\<close> compares the draw, itself a double, with that
  double exactly. These are the doubles of the literals of \<^verbatim>\<open>death\<close>; 0.35 denotes
  3152519739159347 / 2^53, which is below 35/100. The literal 0.5 of \<^verbatim>\<open>reproduce\<close>
  is a double itself.
\<close>

definition float_0_05 :: real where
  "float_0_05 = 7205759403792794 / 2 ^ 57"

definition float_0_01 :: real where
  "float_0_01 = 5764607523034235 / 2 ^ 59"

definition float_0_005 :: real where
  "float_0_005 = 5764607523034235 / 2 ^ 60"

definition float_0_02 :: real where
  "float_0_02 = 5764607523034235 / 2 ^ 58"

definition float_0_15 :: real where
  "float_0_15 = 5404319552844595 / 2 ^ 55"

definition float_0_35 :: real where
  "float_0_35 = 6305039478318694 / 2 ^ 54"

text \<open>
  One mortality check, the body every band of \<^verbatim>\<open>death\<close> repeats:
  \<^verbatim>\<open>death_prob = random.random(); if death_prob < t: p["alive"] = 0\<close>. Here \<open>t\<close>
  is the value of the double the band's literal denotes and \<^verbatim>\<open>death_prob\<close> the value
  of the double drawn, so the comparison of the two values is the one the code makes.
\<close>

definition mortality_check :: "real \<Rightarrow> agent \<Rightarrow> rng \<Rightarrow> agent \<times> rng" where
  "mortality_check t p g =
     (let (death_prob, g') = py_random g
      in (if death_prob < t then p\<lparr>alive := 0\<rparr> else p, g'))"

text \<open>
  The body of the loop of \<^verbatim>\<open>death\<close> for one agent: a first \<^verbatim>\<open>if\<close> for age < 1, then
  an independent \<^verbatim>\<open>if/elif\<close> chain over the open bands, closed by \<^verbatim>\<open>age >= 85\<close>.
\<close>

definition death_one :: "agent \<Rightarrow> rng \<Rightarrow> agent \<times> rng" where
  "death_one p g =
     (let (p1, g1) = (if age p < 1 then mortality_check float_0_05 p g else (p, g))
      in if age p1 < 15 \<and> age p1 > 1 then mortality_check float_0_01 p1 g1
         else if age p1 < 40 \<and> age p1 > 15 then mortality_check float_0_005 p1 g1
         else if age p1 < 55 \<and> age p1 > 40 then mortality_check float_0_02 p1 g1
         else if age p1 < 70 \<and> age p1 > 55 then mortality_check float_0_05 p1 g1
         else if age p1 < 85 \<and> age p1 > 70 then mortality_check float_0_15 p1 g1
         else if age p1 \<ge> 85 then mortality_check float_0_35 p1 g1
         else (p1, g1))"

fun death :: "population \<Rightarrow> rng \<Rightarrow> population \<times> rng" where
  "death [] g = ([], g)"
| "death (p # ps) g =
     (let (p', g') = death_one p g;
          (ps', g'') = death ps g'
      in (p' # ps', g''))"

definition aging_one :: "agent \<Rightarrow> agent" where
  "aging_one p = (if alive p = 1 then p\<lparr>age := age p + 5\<rparr> else p)"

definition aging_update :: "population \<Rightarrow> population" where
  "aging_update population = map aging_one population"

definition fertility_one :: "agent \<Rightarrow> agent" where
  "fertility_one p =
     (let p1 = (if age p > 18 \<and> fertility p = 0 then p\<lparr>fertility := 1\<rparr> else p)
      in if age p1 > 65 then p1\<lparr>fertility := 0\<rparr> else p1)"

definition fertility_update_pop :: "population \<Rightarrow> population" where
  "fertility_update_pop population = map fertility_one population"

fun census :: "population \<Rightarrow> int" where
  "census [] = 0"
| "census (p # ps) = (if alive p = 1 then 1 else 0) + census ps"

section \<open>Pairing engine\<close>

text \<open>
  \<^verbatim>\<open>random.shuffle\<close> permutes a list in place. The raw value read from the entropy
  source selects the permutation: its residue picks the next element among those left,
  its quotient goes on to the rest.
\<close>

function shuffle_with :: "nat \<Rightarrow> 'a list \<Rightarrow> 'a list" where
  "shuffle_with n [] = []"
| "shuffle_with n (x # xs) =
     (let l = x # xs; i = n mod length l
      in l ! i # shuffle_with (n div length l) (take i l @ drop (Suc i) l))"
  by pat_completeness auto
termination
  by (relation "measure (\<lambda>(n, l). length l)") auto

definition py_shuffle :: "'a list \<Rightarrow> rng \<Rightarrow> 'a list \<times> rng" where
  "py_shuffle xs g = (shuffle_with (g 0) xs, rng_tail g)"

text \<open>
  \<^verbatim>\<open>get_single_people\<close> walks the table once and appends a reference to every living
  row without partner to \<^verbatim>\<open>singleMen\<close> when its sex is "M", otherwise to
  \<^verbatim>\<open>singleWomen\<close> when its sex is "F": two lists of references in table order.
\<close>

definition is_single :: "agent \<Rightarrow> bool" where
  "is_single p \<longleftrightarrow> alive p = 1 \<and> partner_id p = -1"

definition get_single_people :: "population \<Rightarrow> nat list \<times> nat list" where
  "get_single_people population =
     (filter (\<lambda>i. is_single (population ! i) \<and> sex (population ! i) = ''M'')
        [0..<length population],
      filter (\<lambda>i. is_single (population ! i) \<and> sex (population ! i) \<noteq> ''M'' \<and>
                   sex (population ! i) = ''F'')
        [0..<length population])"

definition pair_people :: "nat list \<Rightarrow> nat list \<Rightarrow> rng \<Rightarrow> (nat \<times> nat) list \<times> rng" where
  "pair_people singleMen singleWomen g =
     (let (men, g1) = py_shuffle singleMen g;
          (women, g2) = py_shuffle singleWomen g1;
          count = min (length men) (length women)
      in (map (\<lambda>i. (men ! i, women ! i)) [0..<count], g2))"

definition apply_pair :: "nat \<times> nat \<Rightarrow> population \<Rightarrow> population" where
  "apply_pair pr population =
     (let man = fst pr; woman = snd pr;
          pop1 = population[man := (population ! man)\<lparr>partner_id := agent_id (population ! woman)\<rparr>]
      in pop1[woman := (pop1 ! woman)\<lparr>partner_id := agent_id (pop1 ! man)\<rparr>])"

definition apply_pairs :: "(nat \<times> nat) list \<Rightarrow> population \<Rightarrow> population" where
  "apply_pairs pairs population = fold apply_pair pairs population"

section \<open>Reproduction engine\<close>

text \<open>
  \<^verbatim>\<open>next(x for x in population if x["id"] == k)\<close> yields the first row with that id
  and raises \<^verbatim>\<open>StopIteration\<close> when there is none.
\<close>

fun first_index :: "('a \<Rightarrow> bool) \<Rightarrow> 'a list \<Rightarrow> nat option" where
  "first_index P [] = None"
| "first_index P (x # xs) = (if P x then Some 0 else map_option Suc (first_index P xs))"

fun couples_loop ::
  "population \<Rightarrow> nat list \<Rightarrow> (nat \<times> nat) list \<Rightarrow> int set \<Rightarrow> error + (nat \<times> nat) list" where
  "couples_loop population [] couples visited = Inr couples"
| "couples_loop population (i # rest) couples visited =
     (let p = population ! i
      in if partner_id p \<noteq> -1 \<and> agent_id p \<notin> visited then
           (case first_index (\<lambda>x. agent_id x = partner_id p) population of
              None \<Rightarrow> Inl StopIteration
            | Some j \<Rightarrow>
                couples_loop population rest (couples @ [(i, j)])
                  (insert (agent_id (population ! j)) (insert (agent_id p) visited)))
         else couples_loop population rest couples visited)"

definition get_all_couples :: "population \<Rightarrow> error + (nat \<times> nat) list" where
  "get_all_couples population = couples_loop population [0..<length population] [] {}"

text \<open>\<^verbatim>\<open>max\<close> of the ids; Python raises \<^verbatim>\<open>ValueError\<close> on an empty sequence.\<close>

fun py_max :: "int list \<Rightarrow> error + int" where
  "py_max [] = Inl ValueError"
| "py_max (x # xs) = Inr (fold max xs x)"

text \<open>
  The loop state of \<^verbatim>\<open>reproduce\<close>: the table (parents are updated in place), the
  local \<^verbatim>\<open>next_id\<close>, the list \<^verbatim>\<open>new_children\<close> and the entropy source.
\<close>

record repro_state =
  rs_population :: population
  rs_next_id :: int
  rs_new_children :: "agent list"
  rs_rng :: rng

definition reproduce_couple :: "nat \<times> nat \<Rightarrow> repro_state \<Rightarrow> repro_state" where
  "reproduce_couple cpl st =
     (let man = fst cpl; woman = snd cpl; population = rs_population st
      in if alive (population ! man) = 1 \<and> alive (population ! woman) = 1 then
           if fertility (population ! man) = 1 \<and> fertility (population ! woman) = 1 then
             (let (r, g1) = py_random (rs_rng st)
              in if r < 0.5 then
                   (let (b, g2) = py_randint 0 1 g1;
                        sx = (if b = 1 then ''M'' else ''F'');
                        (h, g3) = py_randint 70 100 g2;
                        child = \<lparr>agent_id = rs_next_id st, sex = sx, age = 0, alive = 1,
                                 health = h, fertility = 0, partner_id = -1,
                                 children_count = 0\<rparr>;
                        pop1 = population[man := (population ! man)
                                 \<lparr>children_count := children_count (population ! man) + 1\<rparr>];
                        pop2 = pop1[woman := (pop1 ! woman)
                                 \<lparr>children_count := children_count (pop1 ! woman) + 1\<rparr>]
                    in \<lparr>rs_population = pop2, rs_next_id = rs_next_id st + 1,
                        rs_new_children = rs_new_children st @ [child], rs_rng = g3\<rparr>)
                 else st\<lparr>rs_rng := g1\<rparr>)
           else st
         else st)"

definition reproduce ::
  "population \<Rightarrow> (nat \<times> nat) list \<Rightarrow> rng \<Rightarrow> error + population \<times> rng" where
  "reproduce population couples g =
     (case py_max (map agent_id population) of
        Inl e \<Rightarrow> Inl e
      | Inr m \<Rightarrow>
          (let st = fold reproduce_couple couples
                      \<lparr>rs_population = population, rs_next_id = m + 1,
                       rs_new_children = [], rs_rng = g\<rparr>
           in Inr (rs_population st @ rs_new_children st, rs_rng st)))"

section \<open>Step orchestrator\<close>

text \<open>
  The body of the driver's \<^verbatim>\<open>if inp == ""\<close> branch up to the save: the passes in
  the order the driver calls them. An exception of a pass ends the step.
\<close>

definition advance_one_step :: "population \<Rightarrow> rng \<Rightarrow> error + population \<times> rng" where
  "advance_one_step population g =
     (let (p1, g1) = death population g;
          p2 = aging_update p1;
          p3 = fertility_update_pop p2;
          (men, women) = get_single_people p3;
          (pairs, g2) = pair_people men women g1;
          p4 = apply_pairs pairs p3
      in case get_all_couples p4 of
           Inl e \<Rightarrow> Inl e
         | Inr all_couples \<Rightarrow> reproduce p4 all_couples g2)"

section \<open>Snapshot store\<close>

text \<open>
  The snapshot is one text file: its content as read in text mode, or nothing when the
  file does not exist. Text is ASCII; \<^verbatim>\<open>str.strip\<close> removes the ASCII characters
  for which \<^verbatim>\<open>str.isspace\<close> holds.
\<close>

definition newline :: char where
  "newline = CHR 0x0A"

definition is_space :: "char \<Rightarrow> bool" where
  "is_space c \<longleftrightarrow>
     c \<in> set [CHR 0x09, CHR 0x0A, CHR 0x0B, CHR 0x0C, CHR 0x0D,
              CHR 0x1C, CHR 0x1D, CHR 0x1E, CHR 0x1F, CHR 0x20]"

definition strip :: "string \<Rightarrow> string" where
  "strip s = rev (dropWhile is_space (rev (dropWhile is_space s)))"

text \<open>\<^verbatim>\<open>f.readlines()\<close>: the lines of the content, each with its line end.\<close>

fun readlines_from :: "string \<Rightarrow> string \<Rightarrow> string list" where
  "readlines_from cur [] = (if cur = [] then [] else [cur])"
| "readlines_from cur (c # cs) =
     (if c = newline then (cur @ [c]) # readlines_from [] cs
      else readlines_from (cur @ [c]) cs)"

definition readlines :: "string \<Rightarrow> string list" where
  "readlines content = readlines_from [] content"

text \<open>\<^verbatim>\<open>line.split(",")\<close>: the fields between the separators, at least one.\<close>

fun split_from :: "char \<Rightarrow> string \<Rightarrow> string \<Rightarrow> string list" where
  "split_from sep cur [] = [cur]"
| "split_from sep cur (c # cs) =
     (if c = sep then cur # split_from sep [] cs else split_from sep (cur @ [c]) cs)"

definition py_split :: "char \<Rightarrow> string \<Rightarrow> string list" where
  "py_split sep s = split_from sep [] s"

text \<open>
  \<^verbatim>\<open>int(s)\<close> for a string: surrounding whitespace is ignored, then an optional sign
  and decimal digits, where single underscores may stand between digits; anything else
  raises \<^verbatim>\<open>ValueError\<close>. The whitespace \<^verbatim>\<open>int\<close> ignores in ASCII text is that of
  the C locale: tab, line feed, vertical tab, form feed, carriage return and space. The
  separators 0x1C to 0x1F, which \<^verbatim>\<open>str.isspace\<close> accepts and \<^verbatim>\<open>str.strip\<close> removes,
  are not among them: \<^verbatim>\<open>int\<close> rejects a field that holds one. \<^verbatim>\<open>str(n)\<close>, which the
  f-string of \<^verbatim>\<open>save_population\<close> applies, writes the decimal digits after a minus
  sign for a negative number. The interpreter's bound on the number of digits of such a
  conversion (\<^verbatim>\<open>sys.set_int_max_str_digits\<close>) is left out: numbers are unbounded here.
\<close>

definition is_c_space :: "char \<Rightarrow> bool" where
  "is_c_space c \<longleftrightarrow>
     c \<in> set [CHR 0x09, CHR 0x0A, CHR 0x0B, CHR 0x0C, CHR 0x0D, CHR 0x20]"

definition int_strip :: "string \<Rightarrow> string" where
  "int_strip s = rev (dropWhile is_c_space (rev (dropWhile is_c_space s)))"

definition is_digit :: "char \<Rightarrow> bool" where
  "is_digit c \<longleftrightarrow> 48 \<le> (of_char c :: nat) \<and> (of_char c :: nat) \<le> 57"

definition digit_val :: "char \<Rightarrow> nat" where
  "digit_val c = of_char c - 48"

definition digit_char :: "nat \<Rightarrow> char" where
  "digit_char d = char_of (48 + d)"

fun py_digits :: "nat \<Rightarrow> string \<Rightarrow> nat option" where
  "py_digits acc [] = None"
| "py_digits acc (c # cs) =
     (if is_digit c then
        (case cs of
           [] \<Rightarrow> Some (10 * acc + digit_val c)
         | d # ds \<Rightarrow>
             if d = CHR ''_'' then py_digits (10 * acc + digit_val c) ds
             else py_digits (10 * acc + digit_val c) cs)
      else None)"

definition py_int :: "string \<Rightarrow> error + int" where
  "py_int s =
     (case int_strip s of
        [] \<Rightarrow> Inl ValueError
      | c # cs \<Rightarrow>
          (case (if c = CHR ''-'' then map_option (\<lambda>n. - int n) (py_digits 0 cs)
                 else if c = CHR ''+'' then map_option int (py_digits 0 cs)
                 else map_option int (py_digits 0 (c # cs))) of
             None \<Rightarrow> Inl ValueError
           | Some v \<Rightarrow> Inr v))"

function nat_digits :: "nat \<Rightarrow> string" where
  "nat_digits n =
     (if n < 10 then [digit_char n] else nat_digits (n div 10) @ [digit_char (n mod 10)])"
  by pat_completeness auto
termination
  by (relation "measure (\<lambda>n. n)") auto

declare nat_digits.simps [simp del]

definition py_str :: "int \<Rightarrow> string" where
  "py_str i = (if i < 0 then CHR ''-'' # nat_digits (nat (- i)) else nat_digits (nat i))"

text \<open>Sequencing of steps that may raise: the first exception ends the evaluation.\<close>

definition ebind :: "error + 'a \<Rightarrow> ('a \<Rightarrow> error + 'b) \<Rightarrow> error + 'b" where
  "ebind m f = (case m of Inl e \<Rightarrow> Inl e | Inr x \<Rightarrow> f x)"

definition item_at :: "string list \<Rightarrow> nat \<Rightarrow> error + string" where
  "item_at item k = (if k < length item then Inr (item ! k) else Inl IndexError)"

definition int_item :: "string list \<Rightarrow> nat \<Rightarrow> error + int" where
  "int_item item k = ebind (item_at item k) py_int"

text \<open>
  The dictionary display of \<^verbatim>\<open>load_population\<close>; Python evaluates its values in the
  order written, so the first field that is missing or not an integer decides the
  exception.
\<close>

definition parse_person :: "string list \<Rightarrow> error + agent" where
  "parse_person item =
     ebind (int_item item 0) (\<lambda>i.
     ebind (item_at item 1) (\<lambda>s.
     ebind (int_item item 2) (\<lambda>a.
     ebind (int_item item 3) (\<lambda>al.
     ebind (int_item item 4) (\<lambda>h.
     ebind (int_item item 5) (\<lambda>f.
     ebind (int_item item 6) (\<lambda>pid.
     ebind (int_item item 7) (\<lambda>c.
       Inr \<lparr>agent_id = i, sex = s, age = a, alive = al, health = h, fertility = f,
            partner_id = pid, children_count = c\<rparr>))))))))"

fun load_lines :: "string list \<Rightarrow> population \<Rightarrow> error + population" where
  "load_lines [] population = Inr population"
| "load_lines (line # rest) population =
     (let l = strip line
      in if l = [] then load_lines rest population
         else (case parse_person (py_split CHR '','' l) of
                 Inl e \<Rightarrow> Inl e
               | Inr p \<Rightarrow> load_lines rest (population @ [p])))"

definition load_population :: "string option \<Rightarrow> error + population" where
  "load_population file =
     (case file of
        None \<Rightarrow> Inl FileNotFoundError
      | Some content \<Rightarrow> load_lines (drop 1 (readlines content)) [])"

definition header :: string where
  "header = ''id,sex,age,alive,health,fertility,partner_id,children_count'' @ [newline]"

definition format_line :: "agent \<Rightarrow> string" where
  "format_line p =
     py_str (agent_id p) @ '','' @ sex p @ '','' @ py_str (age p) @ '','' @
     py_str (alive p) @ '','' @ py_str (health p) @ '','' @ py_str (fertility p) @ '','' @
     py_str (partner_id p) @ '','' @ py_str (children_count p) @ [newline]"

definition save_population :: "population \<Rightarrow> string" where
  "save_population population = header @ concat (map format_line population)"

text \<open>
  One loop of \<^verbatim>\<open>generate_initial_population\<close>: \<^verbatim>\<open>n\<close> rows of one sex, the age
  drawn before the health, ids counted up from \<^verbatim>\<open>next_id\<close>.
\<close>

fun generate_rows :: "nat \<Rightarrow> string \<Rightarrow> int \<Rightarrow> rng \<Rightarrow> population \<times> int \<times> rng" where
  "generate_rows 0 sx next_id g = ([], next_id, g)"
| "generate_rows (Suc n) sx next_id g =
     (let (a, g1) = py_randint 18 40 g;
          (h, g2) = py_randint 70 100 g1;
          row = \<lparr>agent_id = next_id, sex = sx, age = a, alive = 1, health = h,
                 fertility = 1, partner_id = -1, children_count = 0\<rparr>;
          (rows, last_id, g3) = generate_rows n sx (next_id + 1) g2
      in (row # rows, last_id, g3))"

definition generate_initial_population :: "rng \<Rightarrow> population \<times> rng" where
  "generate_initial_population g =
     (let (men, next_id, g1) = generate_rows 10 ''M'' 0 g;
          (women, last_id, g2) = generate_rows 10 ''F'' next_id g1
      in (men @ women, g2))"

text \<open>
  The head of the driver's loop: \<^verbatim>\<open>try: load; if empty: raise FileNotFoundError\<close>,
  and a bare \<^verbatim>\<open>except:\<close> that generates and saves a new population. The result is
  the population in memory, the snapshot file and the entropy source afterwards.
\<close>

definition regenerate :: "rng \<Rightarrow> population \<times> string option \<times> rng" where
  "regenerate g =
     (let (population, g') = generate_initial_population g
      in (population, Some (save_population population), g'))"

definition load_or_initialize ::
  "string option \<Rightarrow> rng \<Rightarrow> population \<times> string option \<times> rng" where
  "load_or_initialize file g =
     (case load_population file of
        Inl e \<Rightarrow> regenerate g
      | Inr population \<Rightarrow>
          if length population = 0 then regenerate g else (population, file, g))"

section \<open>Predicates used in the statements\<close>

text \<open>The defaults \<^verbatim>\<open>reproduce\<close> gives a child, apart from id, sex and health.\<close>

definition is_newborn :: "agent \<Rightarrow> bool" where
  "is_newborn c \<longleftrightarrow>
     age c = 0 \<and> alive c = 1 \<and> fertility c = 0 \<and> partner_id c = -1 \<and> children_count c = 0"

text \<open>The two nested tests of \<^verbatim>\<open>reproduce\<close> on a couple: both alive, both fertile.\<close>

definition eligible :: "population \<Rightarrow> nat \<times> nat \<Rightarrow> bool" where
  "eligible population cpl \<longleftrightarrow>
     alive (population ! fst cpl) = 1 \<and> alive (population ! snd cpl) = 1 \<and>
     fertility (population ! fst cpl) = 1 \<and> fertility (population ! snd cpl) = 1"

text \<open>
  The children collected so far carry the ids \<^verbatim>\<open>base\<close>, \<^verbatim>\<open>base + 1\<close>, ... in the
  order of their birth, and \<^verbatim>\<open>next_id\<close> is the first id not handed out.
\<close>

definition fresh_ids :: "int \<Rightarrow> repro_state \<Rightarrow> bool" where
  "fresh_ids base st \<longleftrightarrow>
     rs_next_id st = base + int (length (rs_new_children st)) \<and>
     map agent_id (rs_new_children st) =
       map (\<lambda>k. base + int k) [0..<length (rs_new_children st)] \<and>
     (\<forall>c \<in> set (rs_new_children st). is_newborn c)"

text \<open>
  Lines 327 to 329 of the driver: extract the singles, match them, commit the pairs.
\<close>

definition form_pairs :: "population \<Rightarrow> rng \<Rightarrow> population \<times> rng" where
  "form_pairs population g =
     (let (men, women) = get_single_people population;
          (pairs, g') = pair_people men women g
      in (apply_pairs pairs population, g'))"

text \<open>The pairs the driver commits: every row at most once, men first, women second.\<close>

definition pairs_of :: "population \<Rightarrow> rng \<Rightarrow> (nat \<times> nat) list" where
  "pairs_of population g =
     fst (pair_people (fst (get_single_people population))
            (snd (get_single_people population)) g)"

definition partner_symmetric :: "population \<Rightarrow> bool" where
  "partner_symmetric population \<longleftrightarrow>
     (\<forall>a \<in> set population. partner_id a \<noteq> -1 \<longrightarrow>
        (\<exists>b \<in> set population. agent_id b = partner_id a) \<and>
        (\<forall>b \<in> set population. agent_id b = partner_id a \<longrightarrow> partner_id b = agent_id a))"

definition one_partner :: "population \<Rightarrow> bool" where
  "one_partner population \<longleftrightarrow>
     (\<forall>a \<in> set population. \<forall>b \<in> set population.
        partner_id a \<noteq> -1 \<and> partner_id a = partner_id b \<longrightarrow> a = b)"

definition valid_ids :: "population \<Rightarrow> bool" where
  "valid_ids population \<longleftrightarrow>
     distinct (map agent_id population) \<and> (\<forall>a \<in> set population. 0 \<le> agent_id a)"

definition referential_integrity :: "population \<Rightarrow> bool" where
  "referential_integrity population \<longleftrightarrow>
     (\<forall>a \<in> set population. partner_id a \<noteq> -1 \<longrightarrow>
        (\<exists>b \<in> set population. agent_id b = partner_id a))"

text \<open>The ids of the members of a list of couples.\<close>

definition member_ids :: "population \<Rightarrow> (nat \<times> nat) list \<Rightarrow> int set" where
  "member_ids population couples =
     (\<lambda>c. agent_id (population ! fst c)) ` set couples \<union>
     (\<lambda>c. agent_id (population ! snd c)) ` set couples"

text \<open>
  What is known of the couples collected so far: each is a row with a partner_id
  together with the first row carrying that id, and the first member of a couple has an
  id that no member of an earlier couple carries.
\<close>

definition couples_ok :: "population \<Rightarrow> (nat \<times> nat) list \<Rightarrow> bool" where
  "couples_ok population couples \<longleftrightarrow>
     (\<forall>c \<in> set couples.
        fst c < length population \<and> snd c < length population \<and>
        partner_id (population ! fst c) \<noteq> -1 \<and>
        first_index (\<lambda>x. agent_id x = partner_id (population ! fst c)) population =
          Some (snd c)) \<and>
     (\<forall>l < length couples.
        agent_id (population ! fst (couples ! l)) \<notin> member_ids population (take l couples))"

text \<open>The characters \<^verbatim>\<open>str\<close> writes for an integer: digits, after at most a minus sign.\<close>

definition is_int_char :: "char \<Rightarrow> bool" where
  "is_int_char c \<longleftrightarrow> is_digit c \<or> c = CHR ''-''"

text \<open>The eight fields of a row as \<^verbatim>\<open>save_population\<close> writes them, and a line put
  together from fields.\<close>

definition csv_fields :: "agent \<Rightarrow> string list" where
  "csv_fields p =
     [py_str (agent_id p), sex p, py_str (age p), py_str (alive p), py_str (health p),
      py_str (fertility p), py_str (partner_id p), py_str (children_count p)]"

fun join_commas :: "string list \<Rightarrow> string" where
  "join_commas [] = []"
| "join_commas [f] = f"
| "join_commas (f # f' # fs) = f @ CHR '','' # join_commas (f' # fs)"

definition valid_table :: "population \<Rightarrow> bool" where
  "valid_table population \<longleftrightarrow> (\<forall>p \<in> set population. sex p = ''M'' \<or> sex p = ''F'')"

section \<open>Fertility update\<close>

lemma length_fertility_update_pop: "length (fertility_update_pop population) = length population"
  by (simp add: fertility_update_pop_def)

lemma nth_fertility_update_pop:
  "i < length population \<Longrightarrow> fertility_update_pop population ! i = fertility_one (population ! i)"
  by (simp add: fertility_update_pop_def)

lemma fertility_one_fields:
  "fertility_one p = p\<lparr>fertility := fertility (fertility_one p)\<rparr>"
  by (simp add: fertility_one_def Let_def)

lemma fertility_one_value:
  "fertility (fertility_one p) =
     (if age p > 65 then 0 else if age p > 18 \<and> fertility p = 0 then 1 else fertility p)"
  by (simp add: fertility_one_def Let_def)

lemma fertility_one_row:
  "fertility_one p =
     p\<lparr>fertility := (if age p > 65 then 0
                      else if age p > 18 \<and> fertility p = 0 then 1 else fertility p)\<rparr>"
  by (simp add: fertility_one_def Let_def)

text \<open>
  C6. The fertility update keeps the table's length and looks at every row without
  reading \<^verbatim>\<open>alive\<close>: a row with age > 65 ends with fertility 0 whatever it was; a row
  with 18 < age <= 65 and fertility 0 ends with fertility 1; every other row keeps its
  fertility; and no other field of any row changes.
\<close>

theorem fertility_update_pop_rule:
  "length (fertility_update_pop population) = length population \<and>
   (\<forall>i < length population.
      let p = population ! i; q = fertility_update_pop population ! i
      in q = p\<lparr>fertility := fertility q\<rparr> \<and>
         (age p > 65 \<longrightarrow> fertility q = 0) \<and>
         (age p > 18 \<and> age p \<le> 65 \<and> fertility p = 0 \<longrightarrow> fertility q = 1) \<and>
         (\<not> age p > 65 \<and> \<not> (age p > 18 \<and> fertility p = 0) \<longrightarrow> fertility q = fertility p))"
proof -
  have "\<And>i. i < length population \<Longrightarrow>
      fertility_update_pop population ! i = fertility_one (population ! i)"
    by (rule nth_fertility_update_pop)
  then show ?thesis
    using fertility_one_fields fertility_one_value
    by (simp add: length_fertility_update_pop Let_def)
qed

theorem fertility_update_pop_rule_witness:
  "fertility_update_pop
     [person 0 ''M'' 20 0 80 0 (-1) 0, person 1 ''F'' 70 1 80 1 (-1) 0,
      person 2 ''M'' 10 1 80 0 (-1) 0, person 3 ''F'' 30 1 90 1 (-1) 0] =
     [person 0 ''M'' 20 0 80 1 (-1) 0, person 1 ''F'' 70 1 80 0 (-1) 0,
      person 2 ''M'' 10 1 80 0 (-1) 0, person 3 ''F'' 30 1 90 1 (-1) 0]"
  using fertility_update_pop_rule
    [of "[person 0 ''M'' 20 0 80 0 (-1) 0, person 1 ''F'' 70 1 80 1 (-1) 0,
          person 2 ''M'' 10 1 80 0 (-1) 0, person 3 ''F'' 30 1 90 1 (-1) 0]"]
  by (simp add: fertility_update_pop_def fertility_one_def person_def)

section \<open>Mortality pass\<close>

lemmas float_literals =
  float_0_05_def float_0_01_def float_0_005_def float_0_02_def float_0_15_def float_0_35_def

text \<open>
  Each constant is the double nearest to its literal: a mantissa of 53 bits, and a
  distance to the decimal value of at most half a unit in the last place.
\<close>

lemma float_literals_nearest:
  "\<bar>float_0_05 - 5 / 100\<bar> \<le> 1 / 2 ^ 58"
  "\<bar>float_0_01 - 1 / 100\<bar> \<le> 1 / 2 ^ 60"
  "\<bar>float_0_005 - 5 / 1000\<bar> \<le> 1 / 2 ^ 61"
  "\<bar>float_0_02 - 2 / 100\<bar> \<le> 1 / 2 ^ 59"
  "\<bar>float_0_15 - 15 / 100\<bar> \<le> 1 / 2 ^ 56"
  "\<bar>float_0_35 - 35 / 100\<bar> \<le> 1 / 2 ^ 55"
  by (simp_all add: float_literals)

lemma float_literals_mantissa:
  "(2::nat) ^ 52 \<le> 7205759403792794 \<and> (7205759403792794::nat) < 2 ^ 53"
  "(2::nat) ^ 52 \<le> 5764607523034235 \<and> (5764607523034235::nat) < 2 ^ 53"
  "(2::nat) ^ 52 \<le> 5404319552844595 \<and> (5404319552844595::nat) < 2 ^ 53"
  "(2::nat) ^ 52 \<le> 6305039478318694 \<and> (6305039478318694::nat) < 2 ^ 53"
  by simp_all

lemma float_0_35_draw: "float_0_35 = 3152519739159347 / 2 ^ 53"
  by (simp add: float_0_35_def)

lemma mortality_check_0_35:
  "mortality_check float_0_35 p g =
     (if g 0 mod 2 ^ 53 < 3152519739159347 then p\<lparr>alive := 0\<rparr> else p, rng_tail g)"
proof -
  have "real (g 0 mod 2 ^ 53) / 2 ^ 53 < 3152519739159347 / 2 ^ 53 \<longleftrightarrow>
      real (g 0 mod 2 ^ 53) < 3152519739159347"
    by (simp add: divide_less_cancel)
  also have "\<dots> \<longleftrightarrow> g 0 mod 2 ^ 53 < 3152519739159347"
    by (metis of_nat_less_iff of_nat_numeral)
  finally show ?thesis
    by (simp add: mortality_check_def py_random_def float_0_35_draw)
qed

lemma death_one_boundary:
  "age p \<in> {1, 15, 40, 55, 70} \<Longrightarrow> death_one p g = (p, g)"
  by (auto simp add: death_one_def)

lemma death_one_85:
  "age p = 85 \<Longrightarrow> death_one p g = mortality_check float_0_35 p g"
  by (simp add: death_one_def)

lemma death_Cons:
  "death (p # ps) g =
     (fst (death_one p g) # fst (death ps (snd (death_one p g))),
      snd (death ps (snd (death_one p g))))"
  by (simp add: Let_def case_prod_beta)

lemma death_append:
  "death (xs @ ys) g =
     (fst (death xs g) @ fst (death ys (snd (death xs g))), snd (death ys (snd (death xs g))))"
  by (induction xs arbitrary: g) (simp_all add: death_Cons del: death.simps(2))

lemma length_death: "length (fst (death population g)) = length population"
  by (induction population arbitrary: g) (simp_all add: death_Cons del: death.simps(2))

lemma nth_death:
  "i < length population \<Longrightarrow>
   fst (death population g) ! i =
     fst (death_one (population ! i) (snd (death (take i population) g)))"
proof (induction population arbitrary: g i)
  case Nil
  then show ?case by simp
next
  case (Cons p ps)
  show ?case
  proof (cases i)
    case 0
    then show ?thesis by (simp add: death_Cons del: death.simps(2))
  next
    case (Suc j)
    with Cons.prems have "j < length ps" by simp
    from Cons.IH[OF this] Suc show ?thesis
      by (simp add: death_Cons del: death.simps(2))
  qed
qed

text \<open>
  C3, as the code has it. A row whose age is exactly 1, 15, 40, 55 or 70 falls between
  the open bands: wherever it stands in the table, the mortality pass returns it as it
  was and hands the entropy source left by the rows before it untouched to the rows
  after it. A row of age exactly 85 is inside the closing band \<^verbatim>\<open>age >= 85\<close>: it
  gets one draw, which is compared with the double that the literal 0.35 denotes. The
  draw is n / 2^53 for the raw value n it reads, and the row dies exactly when
  n < 3152519739159347.
\<close>

theorem death_boundary_ages:
  "(age p \<in> {1, 15, 40, 55, 70} \<longrightarrow>
      death_one p g = (p, g) \<and>
      death (xs @ p # ys) g =
        (fst (death xs g) @ p # fst (death ys (snd (death xs g))),
         snd (death ys (snd (death xs g))))) \<and>
   (age p = 85 \<longrightarrow>
      death_one p g = mortality_check float_0_35 p g \<and>
      float_0_35 = 3152519739159347 / 2 ^ 53 \<and>
      fst (py_random g) = real (g 0 mod 2 ^ 53) / 2 ^ 53 \<and>
      death_one p g =
        (if g 0 mod 2 ^ 53 < 3152519739159347 then p\<lparr>alive := 0\<rparr> else p, rng_tail g))"
proof (intro conjI impI)
  assume b: "age p \<in> {1, 15, 40, 55, 70}"
  show one: "death_one p g = (p, g)" by (rule death_one_boundary[OF b])
  have "death_one p (snd (death xs g)) = (p, snd (death xs g))"
    by (rule death_one_boundary[OF b])
  then show "death (xs @ p # ys) g =
      (fst (death xs g) @ p # fst (death ys (snd (death xs g))),
       snd (death ys (snd (death xs g))))"
    by (simp add: death_append death_Cons del: death.simps(2))
next
  assume "age p = 85"
  then show e: "death_one p g = mortality_check float_0_35 p g" by (rule death_one_85)
  show "death_one p g =
      (if g 0 mod 2 ^ 53 < 3152519739159347 then p\<lparr>alive := 0\<rparr> else p, rng_tail g)"
    by (simp only: e mortality_check_0_35)
next
  show "float_0_35 = 3152519739159347 / 2 ^ 53" by (rule float_0_35_draw)
next
  show "fst (py_random g) = real (g 0 mod 2 ^ 53) / 2 ^ 53" by (simp add: py_random_def)
qed

theorem death_boundary_ages_witness:
  "death [person 0 ''M'' 30 1 80 1 (-1) 0, person 1 ''F'' 15 1 80 0 (-1) 0,
          person 2 ''M'' 50 1 80 1 (-1) 0] (\<lambda>k. 2 ^ 52) =
     ([person 0 ''M'' 30 1 80 1 (-1) 0, person 1 ''F'' 15 1 80 0 (-1) 0,
       person 2 ''M'' 50 1 80 1 (-1) 0], \<lambda>k. 2 ^ 52) \<and>
   death_one (person 1 ''F'' 15 1 80 0 (-1) 0) (\<lambda>k. k) =
     (person 1 ''F'' 15 1 80 0 (-1) 0, \<lambda>k. k) \<and>
   death_one (person 3 ''M'' 85 1 80 0 (-1) 0) (\<lambda>k. 3152519739159347) =
     (person 3 ''M'' 85 1 80 0 (-1) 0, \<lambda>k. 3152519739159347) \<and>
   death_one (person 3 ''M'' 85 1 80 0 (-1) 0) (\<lambda>k. 3152519739159346) =
     (person 3 ''M'' 85 0 80 0 (-1) 0, \<lambda>k. 3152519739159346)"
  using death_boundary_ages
    [of "person 1 ''F'' 15 1 80 0 (-1) 0" "\<lambda>k. 2 ^ 52"
        "[person 0 ''M'' 30 1 80 1 (-1) 0]" "[person 2 ''M'' 50 1 80 1 (-1) 0]"]
    death_boundary_ages [of "person 1 ''F'' 15 1 80 0 (-1) 0" "\<lambda>k. k" "[]" "[]"]
    death_boundary_ages [of "person 3 ''M'' 85 1 80 0 (-1) 0" "\<lambda>k. 3152519739159347" "[]" "[]"]
    death_boundary_ages [of "person 3 ''M'' 85 1 80 0 (-1) 0" "\<lambda>k. 3152519739159346" "[]" "[]"]
  by (simp add: person_def death_one_def mortality_check_def float_literals py_random_def
      rng_tail_def)

theorem death_age_85_counterexample:
  "age (person 0 ''M'' 85 1 80 0 (-1) 0) = 85 \<and>
   death [person 0 ''M'' 85 1 80 0 (-1) 0] (\<lambda>k. k) =
     ([person 0 ''M'' 85 0 80 0 (-1) 0], Suc) \<and>
   Suc \<noteq> (\<lambda>k. k)"
proof -
  have "Suc 0 \<noteq> 0" by simp
  then have "Suc \<noteq> (\<lambda>k. k)" by metis
  then show ?thesis
    by (simp add: death_one_def mortality_check_def float_literals py_random_def rng_tail_def person_def)
qed

section \<open>Pairing commit: frame\<close>

lemma length_aging_update: "length (aging_update population) = length population"
  by (simp add: aging_update_def)

lemma nth_aging_update:
  "i < length population \<Longrightarrow> aging_update population ! i = aging_one (population ! i)"
  by (simp add: aging_update_def)

lemma apply_pair_length: "length (apply_pair pr population) = length population"
  by (simp add: apply_pair_def Let_def)

lemma apply_pair_nth:
  "i < length population \<Longrightarrow>
   apply_pair (m, w) population ! i =
     (if i = w then (population ! w)\<lparr>partner_id := agent_id (population ! m)\<rparr>
      else if i = m then (population ! m)\<lparr>partner_id := agent_id (population ! w)\<rparr>
      else population ! i)"
  by (cases "m < length population") (auto simp add: apply_pair_def Let_def nth_list_update list_update_beyond)

lemma apply_pair_frame:
  "i < length population \<Longrightarrow>
   (apply_pair pr population ! i)\<lparr>partner_id := partner_id (population ! i)\<rparr> =
     population ! i"
  by (cases pr) (simp add: apply_pair_nth)

lemma apply_pair_other:
  "i \<noteq> fst pr \<Longrightarrow> i \<noteq> snd pr \<Longrightarrow> apply_pair pr population ! i = population ! i"
  by (simp add: apply_pair_def Let_def)

lemma apply_pairs_Cons:
  "apply_pairs (pr # prs) population = apply_pairs prs (apply_pair pr population)"
  by (simp add: apply_pairs_def)

lemma apply_pairs_length: "length (apply_pairs prs population) = length population"
  by (induction prs arbitrary: population) (simp_all add: apply_pairs_def apply_pair_length)

lemma apply_pairs_frame:
  "i < length population \<Longrightarrow>
   (apply_pairs prs population ! i)\<lparr>partner_id := partner_id (population ! i)\<rparr> =
     population ! i"
proof (induction prs arbitrary: population)
  case Nil
  then show ?case by (simp add: apply_pairs_def)
next
  case (Cons pr prs)
  let ?p1 = "apply_pair pr population"
  let ?p2 = "apply_pairs prs ?p1"
  have i: "i < length ?p1"
    using Cons.prems by (simp add: apply_pair_length)
  have "(?p2 ! i)\<lparr>partner_id := partner_id (population ! i)\<rparr> =
      ((?p2 ! i)\<lparr>partner_id := partner_id (?p1 ! i)\<rparr>)
        \<lparr>partner_id := partner_id (population ! i)\<rparr>"
    by simp
  also have "\<dots> = (?p1 ! i)\<lparr>partner_id := partner_id (population ! i)\<rparr>"
    by (simp only: Cons.IH[OF i])
  also have "\<dots> = population ! i"
    by (rule apply_pair_frame[OF Cons.prems])
  finally show ?case by (simp only: apply_pairs_Cons)
qed

lemma apply_pairs_other:
  "i \<notin> fst ` set prs \<Longrightarrow> i \<notin> snd ` set prs \<Longrightarrow> apply_pairs prs population ! i = population ! i"
  by (induction prs arbitrary: population) (auto simp add: apply_pairs_def apply_pair_other)

section \<open>Reproduction: one couple\<close>

lemma fold_invariant:
  "(\<And>x s. P s \<Longrightarrow> P (f x s)) \<Longrightarrow> P s \<Longrightarrow> P (fold f xs s)"
  by (induction xs arbitrary: s) simp_all

lemma py_max_Inr:
  "py_max ids = Inr mx \<Longrightarrow> mx \<in> set ids \<and> (\<forall>i \<in> set ids. i \<le> mx)"
proof (cases ids)
  case Nil
  assume "py_max ids = Inr mx"
  with Nil show ?thesis by simp
next
  case (Cons x xs)
  assume "py_max ids = Inr mx"
  with Cons have "fold max xs x = mx" by simp
  moreover have "fold max xs x = Max (set (x # xs))" by (rule Max.set_eq_fold[symmetric])
  ultimately have "mx = Max (set ids)" using Cons by simp
  moreover have "set ids \<noteq> {}" using Cons by simp
  ultimately show ?thesis by (simp add: Max_ge)
qed

lemma py_max_nonempty: "ids \<noteq> [] \<Longrightarrow> \<exists>mx. py_max ids = Inr mx"
  by (cases ids) simp_all

lemma reproduce_couple_skip:
  "\<not> eligible (rs_population st) cpl \<Longrightarrow> reproduce_couple cpl st = st"
  by (auto simp add: reproduce_couple_def eligible_def Let_def)

lemma reproduce_couple_miss:
  "eligible (rs_population st) cpl \<Longrightarrow> \<not> fst (py_random (rs_rng st)) < 0.5 \<Longrightarrow>
   reproduce_couple cpl st = st\<lparr>rs_rng := rng_tail (rs_rng st)\<rparr>"
  by (simp add: reproduce_couple_def eligible_def Let_def case_prod_beta py_random_def)

lemma reproduce_couple_birth:
  "eligible (rs_population st) cpl \<Longrightarrow> fst (py_random (rs_rng st)) < 0.5 \<Longrightarrow>
   reproduce_couple cpl st =
     (let population = rs_population st; man = fst cpl; woman = snd cpl;
          g1 = rng_tail (rs_rng st);
          child = \<lparr>agent_id = rs_next_id st,
                   sex = (if fst (py_randint 0 1 g1) = 1 then ''M'' else ''F''),
                   age = 0, alive = 1, health = fst (py_randint 70 100 (rng_tail g1)),
                   fertility = 0, partner_id = -1, children_count = 0\<rparr>;
          pop1 = population[man := (population ! man)
                   \<lparr>children_count := children_count (population ! man) + 1\<rparr>];
          pop2 = pop1[woman := (pop1 ! woman)
                   \<lparr>children_count := children_count (pop1 ! woman) + 1\<rparr>]
      in \<lparr>rs_population = pop2, rs_next_id = rs_next_id st + 1,
          rs_new_children = rs_new_children st @ [child],
          rs_rng = rng_tail (rng_tail g1)\<rparr>)"
  by (simp add: reproduce_couple_def eligible_def Let_def case_prod_beta py_random_def
      py_randint_def)

lemma reproduce_couple_cases:
  obtains (skip) "reproduce_couple cpl st = st"
  | (miss) "reproduce_couple cpl st = st\<lparr>rs_rng := rng_tail (rs_rng st)\<rparr>"
  | (birth) "eligible (rs_population st) cpl" "fst (py_random (rs_rng st)) < 0.5"
  using reproduce_couple_skip reproduce_couple_miss by blast

lemma reproduce_couple_length:
  "length (rs_population (reproduce_couple cpl st)) = length (rs_population st)"
  by (cases cpl st rule: reproduce_couple_cases)
     (simp_all add: reproduce_couple_birth Let_def)

lemma reproduce_couple_row:
  assumes "i < length (rs_population st)"
  shows "(rs_population (reproduce_couple cpl st) ! i)
           \<lparr>children_count := children_count (rs_population st ! i)\<rparr> =
         rs_population st ! i \<and>
         children_count (rs_population st ! i) \<le>
           children_count (rs_population (reproduce_couple cpl st) ! i) \<and>
         (alive (rs_population st ! i) \<noteq> 1 \<longrightarrow>
            rs_population (reproduce_couple cpl st) ! i = rs_population st ! i)"
proof (cases cpl st rule: reproduce_couple_cases)
  case skip
  then show ?thesis by simp
next
  case miss
  then show ?thesis by simp
next
  case birth
  then show ?thesis using assms
    by (cases "fst cpl < length (rs_population st)"; cases "i = snd cpl"; cases "i = fst cpl")
       (auto simp add: reproduce_couple_birth Let_def nth_list_update eligible_def
          list_update_beyond)
qed

section \<open>Reproduction: the whole pass\<close>

lemma fresh_ids_step: "fresh_ids base st \<Longrightarrow> fresh_ids base (reproduce_couple cpl st)"
proof (cases cpl st rule: reproduce_couple_cases)
  case skip
  assume "fresh_ids base st"
  with skip show ?thesis by simp
next
  case miss
  assume "fresh_ids base st"
  with miss show ?thesis by (simp add: fresh_ids_def)
next
  case birth
  assume "fresh_ids base st"
  then show ?thesis
    by (simp add: reproduce_couple_birth[OF birth] Let_def fresh_ids_def is_newborn_def)
qed

lemma fresh_ids_fold: "fresh_ids base st \<Longrightarrow> fresh_ids base (fold reproduce_couple cs st)"
  by (rule fold_invariant[where P="fresh_ids base"]) (rule fresh_ids_step)

lemma repro_fold_length:
  "length (rs_population (fold reproduce_couple cs st)) = length (rs_population st)"
  by (induction cs arbitrary: st) (simp_all add: reproduce_couple_length)

lemma repro_fold_row:
  "i < length (rs_population st) \<Longrightarrow>
   (rs_population (fold reproduce_couple cs st) ! i)
     \<lparr>children_count := children_count (rs_population st ! i)\<rparr> =
   rs_population st ! i \<and>
   children_count (rs_population st ! i) \<le>
     children_count (rs_population (fold reproduce_couple cs st) ! i) \<and>
   (alive (rs_population st ! i) \<noteq> 1 \<longrightarrow>
      rs_population (fold reproduce_couple cs st) ! i = rs_population st ! i)"
proof (induction cs arbitrary: st)
  case Nil
  then show ?case by simp
next
  case (Cons cpl cs)
  let ?s1 = "reproduce_couple cpl st"
  let ?s2 = "fold reproduce_couple cs ?s1"
  let ?r0 = "rs_population st ! i"
  let ?r1 = "rs_population ?s1 ! i"
  let ?r2 = "rs_population ?s2 ! i"
  have i1: "i < length (rs_population ?s1)"
    using Cons.prems by (simp add: reproduce_couple_length)
  note a = reproduce_couple_row[OF Cons.prems, of cpl]
  note b = Cons.IH[OF i1]
  have a1: "?r1\<lparr>children_count := children_count ?r0\<rparr> = ?r0" using a by (rule conjunct1)
  have b1: "?r2\<lparr>children_count := children_count ?r1\<rparr> = ?r1" using b by (rule conjunct1)
  have "?r2\<lparr>children_count := children_count ?r0\<rparr> =
      (?r2\<lparr>children_count := children_count ?r1\<rparr>)\<lparr>children_count := children_count ?r0\<rparr>"
    by simp
  also have "\<dots> = ?r1\<lparr>children_count := children_count ?r0\<rparr>" by (simp only: b1)
  also have "\<dots> = ?r0" by (rule a1)
  finally have row: "?r2\<lparr>children_count := children_count ?r0\<rparr> = ?r0" .
  have mono: "children_count ?r0 \<le> children_count ?r2"
    using a b by linarith
  have dead: "alive ?r0 \<noteq> 1 \<longrightarrow> ?r2 = ?r0"
  proof
    assume d: "alive ?r0 \<noteq> 1"
    with a have e: "?r1 = ?r0" by blast
    with d b have e2: "?r2 = ?r1" by metis
    from e2 e show "?r2 = ?r0" by (rule trans)
  qed
  have f: "fold reproduce_couple (cpl # cs) st = ?s2" by simp
  show ?case unfolding f using row mono dead by blast
qed

lemma reproduce_Inr:
  assumes "reproduce population couples g = Inr (population', g')"
  obtains mx where "py_max (map agent_id population) = Inr mx"
    and "population' =
      rs_population (fold reproduce_couple couples
        \<lparr>rs_population = population, rs_next_id = mx + 1, rs_new_children = [], rs_rng = g\<rparr>) @
      rs_new_children (fold reproduce_couple couples
        \<lparr>rs_population = population, rs_next_id = mx + 1, rs_new_children = [], rs_rng = g\<rparr>)"
    and "g' = rs_rng (fold reproduce_couple couples
        \<lparr>rs_population = population, rs_next_id = mx + 1, rs_new_children = [], rs_rng = g\<rparr>)"
  using assms by (auto simp add: reproduce_def Let_def split: sum.splits)

lemma reproduce_rows:
  assumes r: "reproduce population couples g = Inr (population', g')"
    and i: "i < length population"
  shows "length population \<le> length population'"
    and "(population' ! i)\<lparr>children_count := children_count (population ! i)\<rparr> =
           population ! i"
    and "children_count (population ! i) \<le> children_count (population' ! i)"
    and "alive (population ! i) \<noteq> 1 \<Longrightarrow> population' ! i = population ! i"
proof -
  from r obtain mx where p': "population' =
      rs_population (fold reproduce_couple couples
        \<lparr>rs_population = population, rs_next_id = mx + 1, rs_new_children = [], rs_rng = g\<rparr>) @
      rs_new_children (fold reproduce_couple couples
        \<lparr>rs_population = population, rs_next_id = mx + 1, rs_new_children = [], rs_rng = g\<rparr>)"
    by (rule reproduce_Inr)
  let ?ini = "\<lparr>rs_population = population, rs_next_id = mx + 1, rs_new_children = [], rs_rng = g\<rparr>"
  let ?fin = "fold reproduce_couple couples ?ini"
  have len: "length (rs_population ?fin) = length population"
    by (simp add: repro_fold_length)
  have nth: "population' ! i = rs_population ?fin ! i"
    using p' len i by (simp add: nth_append)
  have sel: "rs_population ?ini = population" by simp
  have i0: "i < length (rs_population ?ini)" using i by simp
  note f = repro_fold_row[OF i0, of couples, unfolded sel, folded nth]
  show "length population \<le> length population'" using p' len by simp
  show "(population' ! i)\<lparr>children_count := children_count (population ! i)\<rparr> =
           population ! i"
    using f by (rule conjunct1)
  show "children_count (population ! i) \<le> children_count (population' ! i)"
    using f by blast
  show "alive (population ! i) \<noteq> 1 \<Longrightarrow> population' ! i = population ! i"
    using f by blast
qed

lemma reproduce_children:
  assumes r: "reproduce population couples g = Inr (population', g')"
  obtains mx where "py_max (map agent_id population) = Inr mx"
    and "map agent_id (drop (length population) population') =
           map (\<lambda>k. mx + 1 + int k) [0..<length population' - length population]"
    and "\<forall>c \<in> set (drop (length population) population'). is_newborn c"
    and "length population \<le> length population'"
proof -
  from r obtain mx where mx: "py_max (map agent_id population) = Inr mx"
    and p': "population' =
      rs_population (fold reproduce_couple couples
        \<lparr>rs_population = population, rs_next_id = mx + 1, rs_new_children = [], rs_rng = g\<rparr>) @
      rs_new_children (fold reproduce_couple couples
        \<lparr>rs_population = population, rs_next_id = mx + 1, rs_new_children = [], rs_rng = g\<rparr>)"
    by (rule reproduce_Inr)
  let ?ini = "\<lparr>rs_population = population, rs_next_id = mx + 1, rs_new_children = [], rs_rng = g\<rparr>"
  let ?fin = "fold reproduce_couple couples ?ini"
  have len: "length (rs_population ?fin) = length population"
    by (simp add: repro_fold_length)
  have "fresh_ids (mx + 1) ?ini" by (simp add: fresh_ids_def)
  then have fr: "fresh_ids (mx + 1) ?fin" by (rule fresh_ids_fold)
  have d: "drop (length population) population' = rs_new_children ?fin"
    using p' len by simp
  have l: "length population' - length population = length (rs_new_children ?fin)"
    using p' len by simp
  show ?thesis
  proof (rule that[OF mx])
    show "map agent_id (drop (length population) population') =
           map (\<lambda>k. mx + 1 + int k) [0..<length population' - length population]"
      using fr unfolding d l by (simp add: fresh_ids_def)
    show "\<forall>c \<in> set (drop (length population) population'). is_newborn c"
      using fr unfolding d by (simp add: fresh_ids_def)
    show "length population \<le> length population'" using p' len by simp
  qed
qed

section \<open>Pairing: the pairs the driver commits\<close>

lemma mset_shuffle_with: "mset (shuffle_with n xs) = mset xs"
proof (induction n xs rule: shuffle_with.induct)
  case (1 n)
  then show ?case by simp
next
  case (2 n x xs)
  let ?l = "x # xs"
  let ?i = "n mod length ?l"
  have i: "?i < length ?l" by simp
  have IH: "mset (shuffle_with (n div length ?l) (take ?i ?l @ drop (Suc ?i) ?l)) =
      mset (take ?i ?l @ drop (Suc ?i) ?l)"
    by (rule "2.IH"[OF refl refl])
  have "?l = take ?i ?l @ ?l ! ?i # drop (Suc ?i) ?l"
    by (rule id_take_nth_drop[OF i])
  then have "mset ?l = mset (take ?i ?l @ ?l ! ?i # drop (Suc ?i) ?l)" by simp
  then have "mset ?l = add_mset (?l ! ?i) (mset (take ?i ?l @ drop (Suc ?i) ?l))" by simp
  moreover have "mset (shuffle_with n ?l) =
      add_mset (?l ! ?i) (mset (shuffle_with (n div length ?l) (take ?i ?l @ drop (Suc ?i) ?l)))"
    by (simp add: Let_def)
  ultimately show ?case using IH by simp
qed

lemma set_shuffle_with: "set (shuffle_with n xs) = set xs"
  using mset_shuffle_with by (rule mset_eq_setD)

lemma length_shuffle_with: "length (shuffle_with n xs) = length xs"
  using mset_shuffle_with by (rule mset_eq_length)

lemma distinct_shuffle_with: "distinct (shuffle_with n xs) = distinct xs"
  using mset_shuffle_with by (rule mset_eq_imp_distinct_iff)

lemma pair_people_zip:
  "fst (pair_people singleMen singleWomen g) =
     zip (shuffle_with (g 0) singleMen) (shuffle_with (g 1) singleWomen)"
  by (rule nth_equalityI)
     (simp_all add: pair_people_def py_shuffle_def rng_tail_def Let_def)

lemma pair_people_props:
  assumes "distinct singleMen" "distinct singleWomen"
  shows "distinct (map fst (fst (pair_people singleMen singleWomen g)))"
    and "distinct (map snd (fst (pair_people singleMen singleWomen g)))"
    and "fst ` set (fst (pair_people singleMen singleWomen g)) \<subseteq> set singleMen"
    and "snd ` set (fst (pair_people singleMen singleWomen g)) \<subseteq> set singleWomen"
proof -
  let ?m = "shuffle_with (g 0) singleMen" and ?w = "shuffle_with (g 1) singleWomen"
  have dm: "distinct ?m" using assms(1) by (simp add: distinct_shuffle_with)
  have dw: "distinct ?w" using assms(2) by (simp add: distinct_shuffle_with)
  show "distinct (map fst (fst (pair_people singleMen singleWomen g)))"
    using dm by (simp add: pair_people_zip map_fst_zip_take)
  show "distinct (map snd (fst (pair_people singleMen singleWomen g)))"
    using dw by (simp add: pair_people_zip map_snd_zip_take)
  have "fst ` set (zip ?m ?w) \<subseteq> set ?m"
    by (auto dest: set_zip_leftD)
  then show "fst ` set (fst (pair_people singleMen singleWomen g)) \<subseteq> set singleMen"
    by (simp add: pair_people_zip set_shuffle_with)
  have "snd ` set (zip ?m ?w) \<subseteq> set ?w"
    by (auto dest: set_zip_rightD)
  then show "snd ` set (fst (pair_people singleMen singleWomen g)) \<subseteq> set singleWomen"
    by (simp add: pair_people_zip set_shuffle_with)
qed

lemma get_single_people_men:
  "distinct (fst (get_single_people population))"
  "i \<in> set (fst (get_single_people population)) \<longleftrightarrow>
     i < length population \<and> is_single (population ! i) \<and> sex (population ! i) = ''M''"
  by (auto simp add: get_single_people_def)

lemma get_single_people_women:
  "distinct (snd (get_single_people population))"
  "i \<in> set (snd (get_single_people population)) \<longleftrightarrow>
     i < length population \<and> is_single (population ! i) \<and> sex (population ! i) = ''F''"
  by (auto simp add: get_single_people_def)

lemma form_pairs_fst: "fst (form_pairs population g) = apply_pairs (pairs_of population g) population"
  by (simp add: form_pairs_def pairs_of_def Let_def case_prod_beta)

lemma pairs_of_props:
  shows pairs_of_distinct_fst: "distinct (map fst (pairs_of population g))"
    and pairs_of_distinct_snd: "distinct (map snd (pairs_of population g))"
    and pairs_of_man: "(m, w) \<in> set (pairs_of population g) \<Longrightarrow>
          m < length population \<and> is_single (population ! m) \<and> sex (population ! m) = ''M''"
    and pairs_of_woman: "(m, w) \<in> set (pairs_of population g) \<Longrightarrow>
          w < length population \<and> is_single (population ! w) \<and> sex (population ! w) = ''F''"
proof -
  note p = pair_people_props[OF get_single_people_men(1) get_single_people_women(1),
      of population population g, folded pairs_of_def]
  show "distinct (map fst (pairs_of population g))" by (rule p(1))
  show "distinct (map snd (pairs_of population g))" by (rule p(2))
  show "m < length population \<and> is_single (population ! m) \<and> sex (population ! m) = ''M''"
    if "(m, w) \<in> set (pairs_of population g)"
  proof -
    from that have "m \<in> fst ` set (pairs_of population g)" by force
    with p(3) have "m \<in> set (fst (get_single_people population))" by blast
    then show ?thesis by (simp add: get_single_people_men(2))
  qed
  show "w < length population \<and> is_single (population ! w) \<and> sex (population ! w) = ''F''"
    if "(m, w) \<in> set (pairs_of population g)"
  proof -
    from that have "w \<in> snd ` set (pairs_of population g)" by force
    with p(4) have "w \<in> set (snd (get_single_people population))" by blast
    then show ?thesis by (simp add: get_single_people_women(2))
  qed
qed

lemma pairs_of_disjoint:
  "fst ` set (pairs_of population g) \<inter> snd ` set (pairs_of population g) = {}"
proof (rule ccontr)
  assume "fst ` set (pairs_of population g) \<inter> snd ` set (pairs_of population g) \<noteq> {}"
  then obtain k w m where a: "(k, w) \<in> set (pairs_of population g)"
    and b: "(m, k) \<in> set (pairs_of population g)" by force
  from pairs_of_man[OF a] pairs_of_woman[OF b] show False by simp
qed

section \<open>Pairing commit: both sides of a pair\<close>

lemma apply_pair_agent_id:
  "k < length population \<Longrightarrow> agent_id (apply_pair pr population ! k) = agent_id (population ! k)"
proof -
  assume k: "k < length population"
  have "agent_id ((apply_pair pr population ! k)\<lparr>partner_id := partner_id (population ! k)\<rparr>) =
      agent_id (population ! k)"
    by (simp only: apply_pair_frame[OF k])
  then show ?thesis by simp
qed

lemma apply_pairs_agent_id:
  "k < length population \<Longrightarrow> agent_id (apply_pairs prs population ! k) = agent_id (population ! k)"
proof -
  assume k: "k < length population"
  have "agent_id ((apply_pairs prs population ! k)\<lparr>partner_id := partner_id (population ! k)\<rparr>) =
      agent_id (population ! k)"
    by (simp only: apply_pairs_frame[OF k])
  then show ?thesis by simp
qed

lemma apply_pairs_member:
  assumes "distinct (map fst prs)" "distinct (map snd prs)"
    and "fst ` set prs \<inter> snd ` set prs = {}"
    and "\<forall>pr \<in> set prs. fst pr < length population \<and> snd pr < length population"
    and "(m, w) \<in> set prs"
  shows "partner_id (apply_pairs prs population ! m) = agent_id (population ! w) \<and>
         partner_id (apply_pairs prs population ! w) = agent_id (population ! m)"
  using assms
proof (induction prs arbitrary: population)
  case Nil
  then show ?case by simp
next
  case (Cons pr rest)
  let ?p1 = "apply_pair pr population"
  have len: "length ?p1 = length population" by (rule apply_pair_length)
  have mf: "m \<in> fst ` set (pr # rest)" using Cons.prems(5) by (metis fst_conv image_eqI)
  have ws: "w \<in> snd ` set (pr # rest)" using Cons.prems(5) by (metis snd_conv image_eqI)
  have mw: "m \<noteq> w" using mf ws Cons.prems(3) by blast
  have "fst (m, w) < length population \<and> snd (m, w) < length population"
    using Cons.prems(4,5) by blast
  then have mlt: "m < length population" and wlt: "w < length population" by simp_all
  show ?case
  proof (cases "pr = (m, w)")
    case True
    have m1: "m \<notin> fst ` set rest" using Cons.prems(1) True by simp
    have "m \<notin> snd ` set (pr # rest)" using mf Cons.prems(3) by blast
    then have m2: "m \<notin> snd ` set rest" by simp
    have "w \<notin> fst ` set (pr # rest)" using ws Cons.prems(3) by blast
    then have w1: "w \<notin> fst ` set rest" by simp
    have w2: "w \<notin> snd ` set rest" using Cons.prems(2) True by simp
    have "apply_pairs rest ?p1 ! m = ?p1 ! m" by (rule apply_pairs_other[OF m1 m2])
    moreover have "apply_pairs rest ?p1 ! w = ?p1 ! w" by (rule apply_pairs_other[OF w1 w2])
    moreover have "partner_id (?p1 ! m) = agent_id (population ! w)"
      using mw mlt True by (simp add: apply_pair_nth)
    moreover have "partner_id (?p1 ! w) = agent_id (population ! m)"
      using mw wlt True by (simp add: apply_pair_nth)
    ultimately show ?thesis by (simp add: apply_pairs_Cons)
  next
    case False
    with Cons.prems(5) have in_rest: "(m, w) \<in> set rest" by simp
    have d1: "distinct (map fst rest)" using Cons.prems(1) by simp
    have d2: "distinct (map snd rest)" using Cons.prems(2) by simp
    have "fst ` set rest \<subseteq> fst ` set (pr # rest)" "snd ` set rest \<subseteq> snd ` set (pr # rest)"
      by auto
    then have d3: "fst ` set rest \<inter> snd ` set rest = {}" using Cons.prems(3) by blast
    have d4: "\<forall>pr \<in> set rest. fst pr < length ?p1 \<and> snd pr < length ?p1"
      using Cons.prems(4) len by simp
    note IH = Cons.IH[OF d1 d2 d3 d4 in_rest]
    have "agent_id (?p1 ! w) = agent_id (population ! w)"
      by (rule apply_pair_agent_id[OF wlt])
    moreover have "agent_id (?p1 ! m) = agent_id (population ! m)"
      by (rule apply_pair_agent_id[OF mlt])
    ultimately show ?thesis using IH by (simp add: apply_pairs_Cons)
  qed
qed

lemma pairs_of_in_range:
  "\<forall>pr \<in> set (pairs_of population g). fst pr < length population \<and> snd pr < length population"
proof
  fix pr assume "pr \<in> set (pairs_of population g)"
  then have "(fst pr, snd pr) \<in> set (pairs_of population g)" by simp
  from pairs_of_man[OF this] pairs_of_woman[OF this]
  show "fst pr < length population \<and> snd pr < length population" by simp
qed

lemma form_pairs_member:
  assumes "(m, w) \<in> set (pairs_of population g)"
  shows "partner_id (fst (form_pairs population g) ! m) = agent_id (population ! w) \<and>
         partner_id (fst (form_pairs population g) ! w) = agent_id (population ! m)"
  unfolding form_pairs_fst
  by (rule apply_pairs_member[OF pairs_of_distinct_fst pairs_of_distinct_snd
        pairs_of_disjoint pairs_of_in_range assms])

lemma form_pairs_other:
  assumes "\<not> is_single (population ! i)" "i < length population"
  shows "fst (form_pairs population g) ! i = population ! i"
proof -
  have "i \<notin> fst ` set (pairs_of population g)"
  proof
    assume "i \<in> fst ` set (pairs_of population g)"
    then obtain pr where "pr \<in> set (pairs_of population g)" "i = fst pr" by (rule imageE)
    then have "(i, snd pr) \<in> set (pairs_of population g)" by simp
    from pairs_of_man[OF this] assms(1) show False by blast
  qed
  moreover have "i \<notin> snd ` set (pairs_of population g)"
  proof
    assume "i \<in> snd ` set (pairs_of population g)"
    then obtain pr where "pr \<in> set (pairs_of population g)" "i = snd pr" by (rule imageE)
    then have "(fst pr, i) \<in> set (pairs_of population g)" by simp
    from pairs_of_woman[OF this] assms(1) show False by blast
  qed
  ultimately show ?thesis unfolding form_pairs_fst by (rule apply_pairs_other)
qed

lemma form_pairs_unpaired:
  assumes "i \<notin> fst ` set (pairs_of population g)" "i \<notin> snd ` set (pairs_of population g)"
  shows "fst (form_pairs population g) ! i = population ! i"
  unfolding form_pairs_fst using assms by (rule apply_pairs_other)

lemma form_pairs_length: "length (fst (form_pairs population g)) = length population"
  by (simp add: form_pairs_fst apply_pairs_length)

lemma form_pairs_frame:
  "i < length population \<Longrightarrow>
   (fst (form_pairs population g) ! i)\<lparr>partner_id := partner_id (population ! i)\<rparr> =
     population ! i"
  by (simp add: form_pairs_fst apply_pairs_frame)

lemma form_pairs_agent_id:
  "i < length population \<Longrightarrow>
   agent_id (fst (form_pairs population g) ! i) = agent_id (population ! i)"
  by (simp add: form_pairs_fst apply_pairs_agent_id)

section \<open>Partnership symmetry, row by row\<close>

lemma valid_ids_inj:
  assumes "valid_ids population" "i < length population" "j < length population"
    and "agent_id (population ! i) = agent_id (population ! j)"
  shows "i = j"
proof -
  have d: "distinct (map agent_id population)" using assms(1) by (simp add: valid_ids_def)
  have "map agent_id population ! i = map agent_id population ! j"
    using assms(2,3,4) by simp
  then show ?thesis
    using nth_eq_iff_index_eq[OF d, of i j] assms(2,3) by simp
qed

lemma valid_ids_nonneg:
  "valid_ids population \<Longrightarrow> i < length population \<Longrightarrow> 0 \<le> agent_id (population ! i)"
  by (simp add: valid_ids_def)

lemma partner_symmetric_ex:
  assumes "partner_symmetric population" "i < length population"
    and "partner_id (population ! i) \<noteq> -1"
  obtains j where "j < length population"
    and "agent_id (population ! j) = partner_id (population ! i)"
proof -
  have "population ! i \<in> set population" using assms(2) by simp
  with assms(1,3) have "\<exists>b \<in> set population. agent_id b = partner_id (population ! i)"
    unfolding partner_symmetric_def by blast
  then obtain b where "b \<in> set population" "agent_id b = partner_id (population ! i)" by blast
  then obtain j where "j < length population" "population ! j = b"
    by (auto simp add: in_set_conv_nth)
  with \<open>agent_id b = partner_id (population ! i)\<close> that show thesis by blast
qed

lemma partner_symmetric_back:
  assumes "partner_symmetric population" "i < length population" "j < length population"
    and "partner_id (population ! i) \<noteq> -1"
    and "agent_id (population ! j) = partner_id (population ! i)"
  shows "partner_id (population ! j) = agent_id (population ! i)"
proof -
  have "population ! i \<in> set population" "population ! j \<in> set population"
    using assms(2,3) by simp_all
  with assms(1,4,5) show ?thesis unfolding partner_symmetric_def by blast
qed

lemma partner_symmetricI:
  assumes "\<And>i. i < length population \<Longrightarrow> partner_id (population ! i) \<noteq> -1 \<Longrightarrow>
      \<exists>j < length population. agent_id (population ! j) = partner_id (population ! i)"
    and "\<And>i j. i < length population \<Longrightarrow> j < length population \<Longrightarrow>
      partner_id (population ! i) \<noteq> -1 \<Longrightarrow>
      agent_id (population ! j) = partner_id (population ! i) \<Longrightarrow>
      partner_id (population ! j) = agent_id (population ! i)"
  shows "partner_symmetric population"
  unfolding partner_symmetric_def
proof (intro ballI impI conjI)
  fix a assume a: "a \<in> set population" and p: "partner_id a \<noteq> -1"
  from a obtain i where i: "i < length population" "population ! i = a"
    by (auto simp add: in_set_conv_nth)
  from assms(1)[OF i(1)] p i(2)
  obtain j where "j < length population" "agent_id (population ! j) = partner_id a" by auto
  then show "\<exists>b \<in> set population. agent_id b = partner_id a"
    using nth_mem by blast
next
  fix a b assume a: "a \<in> set population" and p: "partner_id a \<noteq> -1"
    and b: "b \<in> set population" and e: "agent_id b = partner_id a"
  from a obtain i where i: "i < length population" "population ! i = a"
    by (auto simp add: in_set_conv_nth)
  from b obtain j where j: "j < length population" "population ! j = b"
    by (auto simp add: in_set_conv_nth)
  from assms(2)[OF i(1) j(1)] p e i(2) j(2)
  show "partner_id b = agent_id a" by simp
qed

section \<open>Reproduction: ids and partner links\<close>

lemma reproduce_old_row:
  assumes r: "reproduce population couples g = Inr (population', g')"
    and i: "i < length population"
  shows "agent_id (population' ! i) = agent_id (population ! i)"
    and "partner_id (population' ! i) = partner_id (population ! i)"
    and "alive (population' ! i) = alive (population ! i)"
    and "age (population' ! i) = age (population ! i)"
    and "fertility (population' ! i) = fertility (population ! i)"
    and "sex (population' ! i) = sex (population ! i)"
    and "health (population' ! i) = health (population ! i)"
proof -
  note f = reproduce_rows(2)[OF r i]
  have "agent_id ((population' ! i)\<lparr>children_count := children_count (population ! i)\<rparr>) =
      agent_id (population ! i)" by (simp only: f)
  then show "agent_id (population' ! i) = agent_id (population ! i)" by simp
  have "partner_id ((population' ! i)\<lparr>children_count := children_count (population ! i)\<rparr>) =
      partner_id (population ! i)" by (simp only: f)
  then show "partner_id (population' ! i) = partner_id (population ! i)" by simp
  have "alive ((population' ! i)\<lparr>children_count := children_count (population ! i)\<rparr>) =
      alive (population ! i)" by (simp only: f)
  then show "alive (population' ! i) = alive (population ! i)" by simp
  have "age ((population' ! i)\<lparr>children_count := children_count (population ! i)\<rparr>) =
      age (population ! i)" by (simp only: f)
  then show "age (population' ! i) = age (population ! i)" by simp
  have "fertility ((population' ! i)\<lparr>children_count := children_count (population ! i)\<rparr>) =
      fertility (population ! i)" by (simp only: f)
  then show "fertility (population' ! i) = fertility (population ! i)" by simp
  have "sex ((population' ! i)\<lparr>children_count := children_count (population ! i)\<rparr>) =
      sex (population ! i)" by (simp only: f)
  then show "sex (population' ! i) = sex (population ! i)" by simp
  have "health ((population' ! i)\<lparr>children_count := children_count (population ! i)\<rparr>) =
      health (population ! i)" by (simp only: f)
  then show "health (population' ! i) = health (population ! i)" by simp
qed

lemma reproduce_new_row:
  assumes r: "reproduce population couples g = Inr (population', g')"
    and m: "py_max (map agent_id population) = Inr mx"
    and k: "length population \<le> k" "k < length population'"
  shows "agent_id (population' ! k) = mx + 1 + int (k - length population)"
    and "is_newborn (population' ! k)"
proof -
  from r obtain mx' where m': "py_max (map agent_id population) = Inr mx'"
    and ids: "map agent_id (drop (length population) population') =
           map (\<lambda>k. mx' + 1 + int k) [0..<length population' - length population]"
    and nb: "\<forall>c \<in> set (drop (length population) population'). is_newborn c"
    by (rule reproduce_children)
  from m m' have mx: "mx' = mx" by simp
  let ?j = "k - length population"
  have j: "?j < length (drop (length population) population')" using k by simp
  have nth: "drop (length population) population' ! ?j = population' ! k"
    using k by simp
  have "map agent_id (drop (length population) population') ! ?j =
      map (\<lambda>k. mx' + 1 + int k) [0..<length population' - length population] ! ?j"
    by (simp only: ids)
  then show "agent_id (population' ! k) = mx + 1 + int (k - length population)"
    using j k nth mx by simp
  have "drop (length population) population' ! ?j \<in> set (drop (length population) population')"
    using j by (rule nth_mem)
  with nb have "is_newborn (drop (length population) population' ! ?j)" by blast
  then show "is_newborn (population' ! k)" by (simp only: nth)
qed

lemma py_max_bound:
  "py_max (map agent_id population) = Inr mx \<Longrightarrow> i < length population \<Longrightarrow>
   agent_id (population ! i) \<le> mx"
  using py_max_Inr[of "map agent_id population" mx] by simp

lemma reproduce_Inr_max:
  assumes "reproduce population couples g = Inr (population', g')"
  obtains mx where "py_max (map agent_id population) = Inr mx"
  using assms by (rule reproduce_Inr)

lemma reproduce_distinct:
  assumes r: "reproduce population couples g = Inr (population', g')"
    and d: "distinct (map agent_id population)"
  shows "distinct (map agent_id population')"
proof -
  from r obtain mx where m: "py_max (map agent_id population) = Inr mx"
    by (rule reproduce_Inr_max)
  let ?n = "length population"
  have id_of: "agent_id (population' ! i) =
      (if i < ?n then agent_id (population ! i) else mx + 1 + int (i - ?n))"
    if "i < length population'" for i
    using reproduce_old_row(1)[OF r, of i] reproduce_new_row(1)[OF r m, of i] that by simp
  have "agent_id (population' ! i) \<noteq> agent_id (population' ! j)"
    if ij: "i < length population'" "j < length population'" "i \<noteq> j" for i j
  proof (cases "i < ?n"; cases "j < ?n")
    assume a: "i < ?n" "j < ?n"
    then have "map agent_id population ! i \<noteq> map agent_id population ! j"
      using nth_eq_iff_index_eq[OF d, of i j] ij(3) by simp
    then show ?thesis using a id_of[OF ij(1)] id_of[OF ij(2)] by simp
  next
    assume a: "i < ?n" "\<not> j < ?n"
    from py_max_bound[OF m a(1)] show ?thesis
      using a id_of[OF ij(1)] id_of[OF ij(2)] by simp
  next
    assume a: "\<not> i < ?n" "j < ?n"
    from py_max_bound[OF m a(2)] show ?thesis
      using a id_of[OF ij(1)] id_of[OF ij(2)] by simp
  next
    assume a: "\<not> i < ?n" "\<not> j < ?n"
    then show ?thesis using ij(3) id_of[OF ij(1)] id_of[OF ij(2)] by simp
  qed
  then show ?thesis by (simp add: distinct_conv_nth)
qed

lemma reproduce_symmetric:
  assumes r: "reproduce population couples g = Inr (population', g')"
    and s: "partner_symmetric population"
  shows "partner_symmetric population'"
proof (rule partner_symmetricI)
  from r obtain mx where m: "py_max (map agent_id population) = Inr mx"
    by (rule reproduce_Inr_max)
  let ?n = "length population"
  have le: "?n \<le> length population'"
  proof (cases "population = []")
    case True then show ?thesis by simp
  next
    case False
    then have "0 < ?n" by simp
    from reproduce_rows(1)[OF r this] show ?thesis .
  qed
  {
    fix i assume i: "i < length population'" and p: "partner_id (population' ! i) \<noteq> -1"
    have old: "i < ?n"
    proof (rule ccontr)
      assume "\<not> i < ?n"
      then have "is_newborn (population' ! i)"
        using reproduce_new_row(2)[OF r m _ i] by simp
      with p show False by (simp add: is_newborn_def)
    qed
    have pe: "partner_id (population' ! i) = partner_id (population ! i)"
      by (rule reproduce_old_row(2)[OF r old])
    have ie: "agent_id (population' ! i) = agent_id (population ! i)"
      by (rule reproduce_old_row(1)[OF r old])
    note old pe ie
  } note olds = this
  show "\<exists>j<length population'. agent_id (population' ! j) = partner_id (population' ! i)"
    if i: "i < length population'" and p: "partner_id (population' ! i) \<noteq> -1" for i
  proof -
    note o = olds[OF i p]
    from p o(2) have p0: "partner_id (population ! i) \<noteq> -1" by simp
    from partner_symmetric_ex[OF s o(1) p0]
    obtain j where j: "j < ?n" "agent_id (population ! j) = partner_id (population ! i)" .
    have "agent_id (population' ! j) = agent_id (population ! j)"
      by (rule reproduce_old_row(1)[OF r j(1)])
    with j o(2) have "agent_id (population' ! j) = partner_id (population' ! i)" by simp
    moreover have "j < length population'" using j(1) le by simp
    ultimately show ?thesis by blast
  qed
  show "partner_id (population' ! j) = agent_id (population' ! i)"
    if i: "i < length population'" and j: "j < length population'"
      and p: "partner_id (population' ! i) \<noteq> -1"
      and e: "agent_id (population' ! j) = partner_id (population' ! i)" for i j
  proof -
    note o = olds[OF i p]
    from p o(2) have p0: "partner_id (population ! i) \<noteq> -1" by simp
    from partner_symmetric_ex[OF s o(1) p0]
    obtain j0 where j0: "j0 < ?n" "agent_id (population ! j0) = partner_id (population ! i)" .
    have jold: "j < ?n"
    proof (rule ccontr)
      assume n: "\<not> j < ?n"
      then have "agent_id (population' ! j) = mx + 1 + int (j - ?n)"
        using reproduce_new_row(1)[OF r m _ j] by simp
      moreover have "agent_id (population ! j0) \<le> mx" by (rule py_max_bound[OF m j0(1)])
      ultimately show False using e o(2) j0(2) by simp
    qed
    have je: "agent_id (population' ! j) = agent_id (population ! j)"
      by (rule reproduce_old_row(1)[OF r jold])
    have jp: "partner_id (population' ! j) = partner_id (population ! j)"
      by (rule reproduce_old_row(2)[OF r jold])
    have "agent_id (population ! j) = partner_id (population ! i)"
      using e je o(2) by simp
    from partner_symmetric_back[OF s o(1) jold p0 this]
    show ?thesis using jp o(3) by simp
  qed
qed

section \<open>Pairing commit: symmetry\<close>

lemma pairs_of_role:
  obtains (man) w where "(i, w) \<in> set (pairs_of population g)"
  | (woman) m where "(m, i) \<in> set (pairs_of population g)"
  | (unpaired) "i \<notin> fst ` set (pairs_of population g)" "i \<notin> snd ` set (pairs_of population g)"
proof (cases "i \<in> fst ` set (pairs_of population g)")
  case True
  then obtain pr where "pr \<in> set (pairs_of population g)" "i = fst pr" by (rule imageE)
  then have "(i, snd pr) \<in> set (pairs_of population g)" by simp
  then show ?thesis by (rule man)
next
  case False
  show ?thesis
  proof (cases "i \<in> snd ` set (pairs_of population g)")
    case True
    then obtain pr where "pr \<in> set (pairs_of population g)" "i = snd pr" by (rule imageE)
    then have "(fst pr, i) \<in> set (pairs_of population g)" by simp
    then show ?thesis by (rule woman)
  next
    case no: False
    from False no show ?thesis by (rule unpaired)
  qed
qed

lemma form_pairs_partner:
  assumes v: "valid_ids population" and s: "partner_symmetric population"
    and i: "i < length population"
    and p: "partner_id (fst (form_pairs population g) ! i) \<noteq> -1"
  obtains q where "q < length population"
    and "agent_id (population ! q) = partner_id (fst (form_pairs population g) ! i)"
    and "partner_id (fst (form_pairs population g) ! q) = agent_id (population ! i)"
proof (cases i population g rule: pairs_of_role)
  case (man w)
  from pairs_of_woman[OF man] have "w < length population" by simp
  with form_pairs_member[OF man] that show ?thesis by simp
next
  case (woman m)
  from pairs_of_man[OF woman] have "m < length population" by simp
  with form_pairs_member[OF woman] that show ?thesis by simp
next
  case unpaired
  have same: "fst (form_pairs population g) ! i = population ! i"
    by (rule form_pairs_unpaired[OF unpaired])
  with p have p0: "partner_id (population ! i) \<noteq> -1" by simp
  from partner_symmetric_ex[OF s i p0]
  obtain j where j: "j < length population"
    "agent_id (population ! j) = partner_id (population ! i)" .
  have bk: "partner_id (population ! j) = agent_id (population ! i)"
    by (rule partner_symmetric_back[OF s i j(1) p0 j(2)])
  have "0 \<le> agent_id (population ! i)" by (rule valid_ids_nonneg[OF v i])
  with bk have "\<not> is_single (population ! j)" by (simp add: is_single_def)
  then have "fst (form_pairs population g) ! j = population ! j"
    using j(1) by (rule form_pairs_other)
  with bk j same that show ?thesis by simp
qed

lemma form_pairs_symmetric:
  assumes v: "valid_ids population" and s: "partner_symmetric population"
  shows "partner_symmetric (fst (form_pairs population g))"
proof (rule partner_symmetricI)
  let ?P = "fst (form_pairs population g)"
  show "\<exists>j<length ?P. agent_id (?P ! j) = partner_id (?P ! i)"
    if i: "i < length ?P" and p: "partner_id (?P ! i) \<noteq> -1" for i
  proof -
    from i have i0: "i < length population" by (simp add: form_pairs_length)
    from form_pairs_partner[OF v s i0 p]
    obtain q where q: "q < length population" "agent_id (population ! q) = partner_id (?P ! i)" .
    have "agent_id (?P ! q) = agent_id (population ! q)" by (rule form_pairs_agent_id[OF q(1)])
    with q(2) have "agent_id (?P ! q) = partner_id (?P ! i)" by simp
    moreover have "q < length ?P" using q(1) by (simp add: form_pairs_length)
    ultimately show ?thesis by blast
  qed
  show "partner_id (?P ! j) = agent_id (?P ! i)"
    if i: "i < length ?P" and j: "j < length ?P" and p: "partner_id (?P ! i) \<noteq> -1"
      and e: "agent_id (?P ! j) = partner_id (?P ! i)" for i j
  proof -
    from i have i0: "i < length population" by (simp add: form_pairs_length)
    from j have j0: "j < length population" by (simp add: form_pairs_length)
    from form_pairs_partner[OF v s i0 p]
    obtain q where q: "q < length population" "agent_id (population ! q) = partner_id (?P ! i)"
      "partner_id (?P ! q) = agent_id (population ! i)" .
    have "agent_id (?P ! j) = agent_id (population ! j)" by (rule form_pairs_agent_id[OF j0])
    with e q(2) have "agent_id (population ! j) = agent_id (population ! q)" by simp
    from valid_ids_inj[OF v j0 q(1) this] have "j = q" .
    moreover have "agent_id (?P ! i) = agent_id (population ! i)"
      by (rule form_pairs_agent_id[OF i0])
    ultimately show ?thesis using q(3) by simp
  qed
qed

lemma map_agent_id_form_pairs:
  "map agent_id (fst (form_pairs population g)) = map agent_id population"
  by (rule nth_equalityI) (simp_all add: form_pairs_length form_pairs_agent_id)

lemma form_pairs_valid_ids:
  "valid_ids population \<Longrightarrow> valid_ids (fst (form_pairs population g))"
proof -
  assume v: "valid_ids population"
  have "agent_id ` set (fst (form_pairs population g)) = agent_id ` set population"
    using map_agent_id_form_pairs[of population g] by (metis set_map)
  with v show ?thesis
    unfolding valid_ids_def by (simp only: map_agent_id_form_pairs ball_simps) (metis imageE imageI)
qed

lemma symmetric_one_partner:
  assumes v: "valid_ids population" and s: "partner_symmetric population"
  shows "one_partner population"
  unfolding one_partner_def
proof (intro ballI impI)
  fix a b assume a: "a \<in> set population" and b: "b \<in> set population"
    and h: "partner_id a \<noteq> -1 \<and> partner_id a = partner_id b"
  from a obtain i where i: "i < length population" "population ! i = a"
    by (auto simp add: in_set_conv_nth)
  from b obtain j where j: "j < length population" "population ! j = b"
    by (auto simp add: in_set_conv_nth)
  from h i(2) have pi: "partner_id (population ! i) \<noteq> -1" by simp
  from h j(2) have pj: "partner_id (population ! j) \<noteq> -1" by simp
  from partner_symmetric_ex[OF s i(1) pi]
  obtain q where q: "q < length population"
    "agent_id (population ! q) = partner_id (population ! i)" .
  have q2: "agent_id (population ! q) = partner_id (population ! j)"
    using q(2) h i(2) j(2) by simp
  have "partner_id (population ! q) = agent_id (population ! i)"
    by (rule partner_symmetric_back[OF s i(1) q(1) pi q(2)])
  moreover have "partner_id (population ! q) = agent_id (population ! j)"
    by (rule partner_symmetric_back[OF s j(1) q(1) pj q2])
  ultimately have "agent_id (population ! i) = agent_id (population ! j)" by simp
  from valid_ids_inj[OF v i(1) j(1) this] have "i = j" .
  with i(2) j(2) show "a = b" by simp
qed

section \<open>One step, row by row\<close>

lemma advance_one_step_stages:
  "advance_one_step population g =
     (case get_all_couples
             (fst (form_pairs (fertility_update_pop (aging_update (fst (death population g))))
                    (snd (death population g)))) of
        Inl e \<Rightarrow> Inl e
      | Inr all_couples \<Rightarrow>
          reproduce
            (fst (form_pairs (fertility_update_pop (aging_update (fst (death population g))))
                   (snd (death population g))))
            all_couples
            (snd (form_pairs (fertility_update_pop (aging_update (fst (death population g))))
                   (snd (death population g)))))"
  by (simp add: advance_one_step_def form_pairs_def Let_def case_prod_beta split: sum.splits)

lemma death_one_frame: "(fst (death_one p g))\<lparr>alive := alive p\<rparr> = p"
  by (simp add: death_one_def mortality_check_def py_random_def Let_def)

lemma death_one_alive: "alive (fst (death_one p g)) = alive p \<or> alive (fst (death_one p g)) = 0"
  by (simp add: death_one_def mortality_check_def py_random_def Let_def)

lemma death_one_age: "age (fst (death_one p g)) = age p"
proof -
  have "age ((fst (death_one p g))\<lparr>alive := alive p\<rparr>) = age p"
    by (simp only: death_one_frame)
  then show ?thesis by simp
qed

lemma aging_one_frame: "(aging_one p)\<lparr>age := age p\<rparr> = p"
  by (simp add: aging_one_def)

lemma fertility_one_frame: "(fertility_one p)\<lparr>fertility := fertility p\<rparr> = p"
  by (simp add: fertility_one_def Let_def)

lemma vital_row:
  "i < length population \<Longrightarrow>
   fertility_update_pop (aging_update (fst (death population g))) ! i =
     fertility_one (aging_one (fst (death population g) ! i))"
  by (simp add: nth_fertility_update_pop nth_aging_update length_aging_update length_death)

lemma vital_length:
  "length (fertility_update_pop (aging_update (fst (death population g)))) = length population"
  by (simp add: length_fertility_update_pop length_aging_update length_death)

lemma form_pairs_fields:
  assumes i: "i < length population"
  shows "agent_id (fst (form_pairs population g) ! i) = agent_id (population ! i)"
    and "sex (fst (form_pairs population g) ! i) = sex (population ! i)"
    and "age (fst (form_pairs population g) ! i) = age (population ! i)"
    and "alive (fst (form_pairs population g) ! i) = alive (population ! i)"
    and "health (fst (form_pairs population g) ! i) = health (population ! i)"
    and "fertility (fst (form_pairs population g) ! i) = fertility (population ! i)"
    and "children_count (fst (form_pairs population g) ! i) = children_count (population ! i)"
proof -
  let ?q = "fst (form_pairs population g) ! i"
  note f = form_pairs_frame[OF i, of g]
  have "agent_id (?q\<lparr>partner_id := partner_id (population ! i)\<rparr>) = agent_id (population ! i)"
    by (simp only: f)
  then show "agent_id ?q = agent_id (population ! i)" by simp
  have "sex (?q\<lparr>partner_id := partner_id (population ! i)\<rparr>) = sex (population ! i)"
    by (simp only: f)
  then show "sex ?q = sex (population ! i)" by simp
  have "age (?q\<lparr>partner_id := partner_id (population ! i)\<rparr>) = age (population ! i)"
    by (simp only: f)
  then show "age ?q = age (population ! i)" by simp
  have "alive (?q\<lparr>partner_id := partner_id (population ! i)\<rparr>) = alive (population ! i)"
    by (simp only: f)
  then show "alive ?q = alive (population ! i)" by simp
  have "health (?q\<lparr>partner_id := partner_id (population ! i)\<rparr>) = health (population ! i)"
    by (simp only: f)
  then show "health ?q = health (population ! i)" by simp
  have "fertility (?q\<lparr>partner_id := partner_id (population ! i)\<rparr>) = fertility (population ! i)"
    by (simp only: f)
  then show "fertility ?q = fertility (population ! i)" by simp
  have "children_count (?q\<lparr>partner_id := partner_id (population ! i)\<rparr>) =
      children_count (population ! i)"
    by (simp only: f)
  then show "children_count ?q = children_count (population ! i)" by simp
qed

text \<open>What a successful step leaves of a row that was in the table at its start.\<close>

lemma step_reproduce:
  assumes "advance_one_step population g = Inr (population', g')"
  obtains cs where
    "reproduce
       (fst (form_pairs (fertility_update_pop (aging_update (fst (death population g))))
              (snd (death population g))))
       cs
       (snd (form_pairs (fertility_update_pop (aging_update (fst (death population g))))
              (snd (death population g)))) = Inr (population', g')"
    "get_all_couples
       (fst (form_pairs (fertility_update_pop (aging_update (fst (death population g))))
              (snd (death population g)))) = Inr cs"
  using assms by (auto simp add: advance_one_step_stages split: sum.splits)

lemma step_row:
  assumes s: "advance_one_step population g = Inr (population', g')"
    and i: "i < length population"
  shows "length population \<le> length population'"
    and "agent_id (population' ! i) =
           agent_id (fertility_one (aging_one (fst (death population g) ! i)))"
    and "sex (population' ! i) = sex (fertility_one (aging_one (fst (death population g) ! i)))"
    and "age (population' ! i) = age (fertility_one (aging_one (fst (death population g) ! i)))"
    and "alive (population' ! i) =
           alive (fertility_one (aging_one (fst (death population g) ! i)))"
    and "health (population' ! i) =
           health (fertility_one (aging_one (fst (death population g) ! i)))"
    and "fertility (population' ! i) =
           fertility (fertility_one (aging_one (fst (death population g) ! i)))"
    and "alive (fertility_one (aging_one (fst (death population g) ! i))) \<noteq> 1 \<Longrightarrow>
           population' ! i = fertility_one (aging_one (fst (death population g) ! i))"
proof -
  let ?p3 = "fertility_update_pop (aging_update (fst (death population g)))"
  let ?g1 = "snd (death population g)"
  let ?p4 = "fst (form_pairs ?p3 ?g1)"
  let ?g2 = "snd (form_pairs ?p3 ?g1)"
  let ?r = "fertility_one (aging_one (fst (death population g) ! i))"
  from s obtain cs where r: "reproduce ?p4 cs ?g2 = Inr (population', g')"
    by (rule step_reproduce)
  have l3: "length ?p3 = length population" by (rule vital_length)
  have l4: "length ?p4 = length population" by (simp add: form_pairs_length l3)
  have i3: "i < length ?p3" using i l3 by simp
  have i4: "i < length ?p4" using i l4 by simp
  have row3: "?p3 ! i = ?r" by (rule vital_row[OF i])
  show "length population \<le> length population'"
    using reproduce_rows(1)[OF r i4] l4 by simp
  show "agent_id (population' ! i) = agent_id ?r"
    using reproduce_old_row(1)[OF r i4] form_pairs_fields(1)[OF i3, of ?g1] row3 by simp
  show "sex (population' ! i) = sex ?r"
    using reproduce_old_row(6)[OF r i4] form_pairs_fields(2)[OF i3, of ?g1] row3 by simp
  show "age (population' ! i) = age ?r"
    using reproduce_old_row(4)[OF r i4] form_pairs_fields(3)[OF i3, of ?g1] row3 by simp
  show alv: "alive (population' ! i) = alive ?r"
    using reproduce_old_row(3)[OF r i4] form_pairs_fields(4)[OF i3, of ?g1] row3 by simp
  show "health (population' ! i) = health ?r"
    using reproduce_old_row(7)[OF r i4] form_pairs_fields(5)[OF i3, of ?g1] row3 by simp
  show "fertility (population' ! i) = fertility ?r"
    using reproduce_old_row(5)[OF r i4] form_pairs_fields(6)[OF i3, of ?g1] row3 by simp
  show "population' ! i = ?r" if d: "alive ?r \<noteq> 1"
  proof -
    from d row3 have "\<not> is_single (?p3 ! i)" by (simp add: is_single_def)
    then have e4: "?p4 ! i = ?p3 ! i" using i3 by (rule form_pairs_other)
    with d row3 have "alive (?p4 ! i) \<noteq> 1" by simp
    from reproduce_rows(4)[OF r i4 this] e4 row3 show ?thesis by simp
  qed
qed

lemma dead_row_vital:
  "alive p \<noteq> 1 \<Longrightarrow> alive (fst (death_one p g)) \<noteq> 1 \<and>
     aging_one (fst (death_one p g)) = fst (death_one p g)"
  using death_one_alive[of p g] by (auto simp add: aging_one_def)

section \<open>Order of the mortality and aging passes\<close>

lemma age_fertility_one: "age (fertility_one p) = age p"
  by (simp add: fertility_one_def Let_def)

lemma alive_fertility_one: "alive (fertility_one p) = alive p"
  by (simp add: fertility_one_def Let_def)

lemma alive_aging_one: "alive (aging_one p) = alive p"
  by (simp add: aging_one_def)

lemma age_aging_one: "age (aging_one p) = (if alive p = 1 then age p + 5 else age p)"
  by (simp add: aging_one_def)

lemma step_example_1:
  "advance_one_step [person 0 ''M'' 40 1 80 1 (-1) 0, person 1 ''F'' 30 1 80 1 (-1) 0] (\<lambda>k. 0) =
     Inr ([person 0 ''M'' 45 1 80 1 (-1) 0, person 1 ''F'' 30 0 80 1 (-1) 0], \<lambda>k. 0)"
  by (simp add: advance_one_step_def death_one_def mortality_check_def float_literals py_random_def
      rng_tail_def person_def aging_update_def aging_one_def fertility_update_pop_def
      fertility_one_def get_single_people_def is_single_def pair_people_def py_shuffle_def
      apply_pairs_def get_all_couples_def reproduce_def Let_def)

text \<open>
  C8. In a step that completes, the mortality pass has evaluated row \<open>i\<close> as it entered
  the step: its outcome \<open>d\<close> is \<^verbatim>\<open>death\<close>'s loop body applied to the entering row
  (entering age included) with the entropy left by the rows before it. Aging comes
  after: the row ends the step 5 years older exactly when \<open>d\<close> is alive, and with the age
  it entered with when \<open>d\<close> is dead. No later pass changes \<^verbatim>\<open>alive\<close> or \<^verbatim>\<open>age\<close>.
\<close>

theorem mortality_before_aging:
  assumes "advance_one_step population g = Inr (population', g')"
    and "i < length population"
  shows "let d = fst (death_one (population ! i) (snd (death (take i population) g)))
         in fst (death population g) ! i = d \<and>
            alive (population' ! i) = alive d \<and>
            (alive d = 1 \<longrightarrow> age (population' ! i) = age (population ! i) + 5) \<and>
            (alive d \<noteq> 1 \<longrightarrow> age (population' ! i) = age (population ! i))"
proof -
  let ?d = "fst (death_one (population ! i) (snd (death (take i population) g)))"
  have d: "fst (death population g) ! i = ?d" by (rule nth_death[OF assms(2)])
  have a: "age (population' ! i) = (if alive ?d = 1 then age (population ! i) + 5 else age (population ! i))"
    using step_row(4)[OF assms] d
    by (simp add: age_fertility_one age_aging_one death_one_age)
  have l: "alive (population' ! i) = alive ?d"
    using step_row(5)[OF assms] d by (simp add: alive_fertility_one alive_aging_one)
  show ?thesis using d a l by (simp add: Let_def)
qed

theorem mortality_before_aging_witness:
  "advance_one_step [person 0 ''M'' 40 1 80 1 (-1) 0, person 1 ''F'' 30 1 80 1 (-1) 0] (\<lambda>k. 0) =
     Inr ([person 0 ''M'' 45 1 80 1 (-1) 0, person 1 ''F'' 30 0 80 1 (-1) 0], \<lambda>k. 0) \<and>
   alive (fst (death_one (person 0 ''M'' 40 1 80 1 (-1) 0) (\<lambda>k. 0))) = 1 \<and>
   age ([person 0 ''M'' 45 1 80 1 (-1) 0, person 1 ''F'' 30 0 80 1 (-1) 0] ! 0) = 40 + 5 \<and>
   alive (fst (death_one (person 1 ''F'' 30 1 80 1 (-1) 0) (\<lambda>k. 0))) = 0 \<and>
   age ([person 0 ''M'' 45 1 80 1 (-1) 0, person 1 ''F'' 30 0 80 1 (-1) 0] ! 1) = 30"
  using mortality_before_aging[OF step_example_1, of 0]
    mortality_before_aging[OF step_example_1, of 1] step_example_1
  by (simp add: person_def death_one_def mortality_check_def float_literals py_random_def rng_tail_def Let_def)

section \<open>Ids and partner links across the passes\<close>

lemma agent_id_death_one: "agent_id (fst (death_one p g)) = agent_id p"
proof -
  have "agent_id ((fst (death_one p g))\<lparr>alive := alive p\<rparr>) = agent_id p"
    by (simp only: death_one_frame)
  then show ?thesis by simp
qed

lemma partner_id_death_one: "partner_id (fst (death_one p g)) = partner_id p"
proof -
  have "partner_id ((fst (death_one p g))\<lparr>alive := alive p\<rparr>) = partner_id p"
    by (simp only: death_one_frame)
  then show ?thesis by simp
qed

lemma vital_ids:
  "map agent_id (fertility_update_pop (aging_update (fst (death population g)))) =
     map agent_id population"
proof (rule nth_equalityI)
  show "length (map agent_id (fertility_update_pop (aging_update (fst (death population g))))) =
      length (map agent_id population)"
    by (simp add: vital_length)
  fix i
  assume "i < length (map agent_id (fertility_update_pop (aging_update (fst (death population g)))))"
  then have i: "i < length population" by (simp add: vital_length)
  have "agent_id (fertility_one (aging_one (fst (death population g) ! i))) =
      agent_id (population ! i)"
    by (simp add: nth_death[OF i] agent_id_death_one fertility_one_def aging_one_def Let_def)
  then show "map agent_id (fertility_update_pop (aging_update (fst (death population g)))) ! i =
      map agent_id population ! i"
    using i by (simp add: vital_length vital_row)
qed

lemma vital_partner_ids:
  "map partner_id (fertility_update_pop (aging_update (fst (death population g)))) =
     map partner_id population"
proof (rule nth_equalityI)
  show "length (map partner_id (fertility_update_pop (aging_update (fst (death population g))))) =
      length (map partner_id population)"
    by (simp add: vital_length)
  fix i
  assume "i < length (map partner_id (fertility_update_pop (aging_update (fst (death population g)))))"
  then have i: "i < length population" by (simp add: vital_length)
  have "partner_id (fertility_one (aging_one (fst (death population g) ! i))) =
      partner_id (population ! i)"
    by (simp add: nth_death[OF i] partner_id_death_one fertility_one_def aging_one_def Let_def)
  then show "map partner_id (fertility_update_pop (aging_update (fst (death population g)))) ! i =
      map partner_id population ! i"
    using i by (simp add: vital_length vital_row)
qed

lemma partner_symmetric_transfer:
  assumes a: "map agent_id q = map agent_id p" and b: "map partner_id q = map partner_id p"
    and s: "partner_symmetric p"
  shows "partner_symmetric q"
proof (rule partner_symmetricI)
  have len: "length q = length p" using a by (rule map_eq_imp_length_eq)
  have ida: "agent_id (q ! i) = agent_id (p ! i)" if "i < length p" for i
    using that len nth_map[of i q agent_id] nth_map[of i p agent_id] a by simp
  have idp: "partner_id (q ! i) = partner_id (p ! i)" if "i < length p" for i
    using that len nth_map[of i q partner_id] nth_map[of i p partner_id] b by simp
  show "\<exists>j<length q. agent_id (q ! j) = partner_id (q ! i)"
    if i: "i < length q" and n: "partner_id (q ! i) \<noteq> -1" for i
  proof -
    from i len have i0: "i < length p" by simp
    from n idp[OF i0] have n0: "partner_id (p ! i) \<noteq> -1" by simp
    from partner_symmetric_ex[OF s i0 n0]
    obtain j where j: "j < length p" "agent_id (p ! j) = partner_id (p ! i)" .
    then have "agent_id (q ! j) = partner_id (q ! i)" using ida[OF j(1)] idp[OF i0] by simp
    moreover have "j < length q" using j(1) len by simp
    ultimately show ?thesis by blast
  qed
  show "partner_id (q ! j) = agent_id (q ! i)"
    if i: "i < length q" and j: "j < length q" and n: "partner_id (q ! i) \<noteq> -1"
      and e: "agent_id (q ! j) = partner_id (q ! i)" for i j
  proof -
    from i len have i0: "i < length p" by simp
    from j len have j0: "j < length p" by simp
    from n idp[OF i0] have n0: "partner_id (p ! i) \<noteq> -1" by simp
    from e ida[OF j0] idp[OF i0] have e0: "agent_id (p ! j) = partner_id (p ! i)" by simp
    from partner_symmetric_back[OF s i0 j0 n0 e0]
    show ?thesis using idp[OF j0] ida[OF i0] by simp
  qed
qed

lemma valid_ids_transfer:
  assumes a: "map agent_id q = map agent_id p" and v: "valid_ids p"
  shows "valid_ids q"
proof -
  have "set (map agent_id q) = set (map agent_id p)" by (simp only: a)
  then have "agent_id ` set q = agent_id ` set p" by simp
  then have "\<forall>x \<in> set q. 0 \<le> agent_id x"
    using v unfolding valid_ids_def by (metis imageE imageI)
  then show ?thesis using v a by (simp add: valid_ids_def)
qed

lemma reproduce_valid_ids:
  assumes r: "reproduce population couples g = Inr (population', g')"
    and v: "valid_ids population"
  shows "valid_ids population'"
proof -
  from r obtain mx where m: "py_max (map agent_id population) = Inr mx"
    by (rule reproduce_Inr_max)
  have d: "distinct (map agent_id population')"
    using reproduce_distinct[OF r] v by (simp add: valid_ids_def)
  from py_max_Inr[OF m] have "mx \<in> agent_id ` set population" by simp
  with v have mx0: "0 \<le> mx" unfolding valid_ids_def by blast
  have "0 \<le> agent_id a" if "a \<in> set population'" for a
  proof -
    from that obtain k where k: "k < length population'" "population' ! k = a"
      by (auto simp add: in_set_conv_nth)
    show ?thesis
    proof (cases "k < length population")
      case True
      from reproduce_old_row(1)[OF r True] valid_ids_nonneg[OF v True] k(2)
      show ?thesis by simp
    next
      case False
      then have "length population \<le> k" by simp
      from reproduce_new_row(1)[OF r m this k(1)] mx0 k(2) show ?thesis by simp
    qed
  qed
  with d show ?thesis by (simp add: valid_ids_def)
qed

section \<open>Dead rows\<close>

lemma census_append: "census (xs @ ys) = census xs + census ys"
  by (induction xs) simp_all

lemma census_skip_dead:
  assumes "i < length population" "alive (population ! i) \<noteq> 1"
  shows "census population = census (take i population @ drop (Suc i) population)"
proof -
  have "population = take i population @ population ! i # drop (Suc i) population"
    by (rule id_take_nth_drop[OF assms(1)])
  then have "census population =
      census (take i population @ population ! i # drop (Suc i) population)" by simp
  also have "\<dots> = census (take i population) + census (drop (Suc i) population)"
    using assms(2) by (simp add: census_append)
  finally show ?thesis by (simp add: census_append)
qed

lemma death_one_dead:
  "alive p = 0 \<Longrightarrow> fst (death_one p g) = p"
proof -
  assume a: "alive p = 0"
  with death_one_alive[of p g] have "alive (fst (death_one p g)) = alive p" by auto
  moreover have "(fst (death_one p g))\<lparr>alive := alive p\<rparr> = p" by (rule death_one_frame)
  ultimately show ?thesis by (metis agent.surjective agent.update_convs(4) agent.select_convs(4))
qed

lemma dead_row_step:
  assumes s: "advance_one_step population g = Inr (population', g')"
    and i: "i < length population" and d: "alive (population ! i) \<noteq> 1"
  shows "i < length population'"
    and "population' ! i =
       fertility_one (fst (death_one (population ! i) (snd (death (take i population) g))))"
proof -
  let ?d = "fst (death_one (population ! i) (snd (death (take i population) g)))"
  have n: "fst (death population g) ! i = ?d" by (rule nth_death[OF i])
  from dead_row_vital[OF d, of "snd (death (take i population) g)"]
  have dd: "alive ?d \<noteq> 1" and ag: "aging_one ?d = ?d" by simp_all
  have "alive (fertility_one (aging_one (fst (death population g) ! i))) \<noteq> 1"
    using dd ag n by (simp add: alive_fertility_one)
  from step_row(8)[OF s i this] n ag
  show "population' ! i = fertility_one ?d" by simp
  show "i < length population'" using step_row(1)[OF s i] i by simp
qed

text \<open>
  C7, as the code has it. A dead row (\<^verbatim>\<open>alive\<close> other than 1) is never removed and
  is left alone by aging, by the extraction of singles, by the pairing commit and by
  reproduction, and the census does not count it. The fertility update does not read
  \<^verbatim>\<open>alive\<close>: it writes the fertility of a dead row by the age rule it applies to a
  living one, 0 when age > 65, 1 when 18 < age <= 65 and the fertility was 0, the old
  value otherwise, and changes nothing else. So a whole step returns a row that entered
  it with \<^verbatim>\<open>alive = 0\<close> at the same position, with that fertility and otherwise equal.
\<close>

theorem dead_agent_frame:
  assumes "i < length population" and "alive (population ! i) \<noteq> 1"
  shows "aging_update population ! i = population ! i \<and>
    fertility_update_pop population ! i =
      (population ! i)\<lparr>fertility :=
         (if age (population ! i) > 65 then 0
          else if age (population ! i) > 18 \<and> fertility (population ! i) = 0 then 1
          else fertility (population ! i))\<rparr> \<and>
    i \<notin> set (fst (get_single_people population)) \<and>
    i \<notin> set (snd (get_single_people population)) \<and>
    fst (form_pairs population g) ! i = population ! i \<and>
    (reproduce population couples g = Inr (population', g') \<longrightarrow>
       i < length population' \<and> population' ! i = population ! i) \<and>
    census population = census (take i population @ drop (Suc i) population) \<and>
    (advance_one_step population g = Inr (population'', g'') \<longrightarrow>
       i < length population'' \<and>
       population'' ! i =
         fertility_one (fst (death_one (population ! i) (snd (death (take i population) g)))) \<and>
       (alive (population ! i) = 0 \<longrightarrow>
          population'' ! i =
            (population ! i)\<lparr>fertility :=
               (if age (population ! i) > 65 then 0
                else if age (population ! i) > 18 \<and> fertility (population ! i) = 0 then 1
                else fertility (population ! i))\<rparr>))"
proof (intro conjI impI)
  note i = assms(1) and d = assms(2)
  show "aging_update population ! i = population ! i"
    using d by (simp add: nth_aging_update[OF i] aging_one_def)
  show f: "fertility_update_pop population ! i =
      (population ! i)\<lparr>fertility :=
         (if age (population ! i) > 65 then 0
          else if age (population ! i) > 18 \<and> fertility (population ! i) = 0 then 1
          else fertility (population ! i))\<rparr>"
    using fertility_one_row[of "population ! i"] by (simp only: nth_fertility_update_pop[OF i])
  show "i \<notin> set (fst (get_single_people population))"
    using d by (simp add: get_single_people_men(2) is_single_def)
  show "i \<notin> set (snd (get_single_people population))"
    using d by (simp add: get_single_people_women(2) is_single_def)
  from d have "\<not> is_single (population ! i)" by (simp add: is_single_def)
  then show "fst (form_pairs population g) ! i = population ! i"
    using i by (rule form_pairs_other)
  show "census population = census (take i population @ drop (Suc i) population)"
    by (rule census_skip_dead[OF i d])
  {
    assume r: "reproduce population couples g = Inr (population', g')"
    show "population' ! i = population ! i" by (rule reproduce_rows(4)[OF r i d])
    show "i < length population'" using reproduce_rows(1)[OF r i] i by simp
  }
  {
    assume s: "advance_one_step population g = Inr (population'', g'')"
    show "i < length population''" by (rule dead_row_step(1)[OF s i d])
    show e: "population'' ! i =
        fertility_one (fst (death_one (population ! i) (snd (death (take i population) g))))"
      by (rule dead_row_step(2)[OF s i d])
    assume z: "alive (population ! i) = 0"
    have "population'' ! i = fertility_one (population ! i)"
      using e by (simp only: death_one_dead[OF z])
    also have "\<dots> = (population ! i)\<lparr>fertility :=
         (if age (population ! i) > 65 then 0
          else if age (population ! i) > 18 \<and> fertility (population ! i) = 0 then 1
          else fertility (population ! i))\<rparr>"
      by (rule fertility_one_row)
    finally show "population'' ! i =
        (population ! i)\<lparr>fertility :=
           (if age (population ! i) > 65 then 0
            else if age (population ! i) > 18 \<and> fertility (population ! i) = 0 then 1
            else fertility (population ! i))\<rparr>" .
  }
qed

lemma step_example_2:
  "advance_one_step [person 0 ''M'' 70 0 80 1 (-1) 3, person 1 ''F'' 40 1 80 1 (-1) 0] (\<lambda>k. 0) =
     Inr ([person 0 ''M'' 70 0 80 0 (-1) 3, person 1 ''F'' 45 1 80 1 (-1) 0], \<lambda>k. 0)"
  by (simp add: advance_one_step_def death_one_def mortality_check_def float_literals py_random_def
      rng_tail_def person_def aging_update_def aging_one_def fertility_update_pop_def
      fertility_one_def get_single_people_def is_single_def pair_people_def py_shuffle_def
      apply_pairs_def get_all_couples_def reproduce_def Let_def)

theorem dead_agent_frame_witness:
  "aging_update [person 0 ''M'' 70 0 80 1 (-1) 3, person 1 ''F'' 40 1 80 1 (-1) 0] ! 0 =
     person 0 ''M'' 70 0 80 1 (-1) 3 \<and>
   fertility_update_pop [person 0 ''M'' 70 0 80 1 (-1) 3, person 1 ''F'' 40 1 80 1 (-1) 0] ! 0 =
     person 0 ''M'' 70 0 80 0 (-1) 3 \<and>
   get_single_people [person 0 ''M'' 70 0 80 1 (-1) 3, person 1 ''F'' 40 1 80 1 (-1) 0] =
     ([], [1]) \<and>
   census [person 0 ''M'' 70 0 80 1 (-1) 3, person 1 ''F'' 40 1 80 1 (-1) 0] = 1 \<and>
   advance_one_step [person 0 ''M'' 70 0 80 1 (-1) 3, person 1 ''F'' 40 1 80 1 (-1) 0] (\<lambda>k. 0) =
     Inr ([person 0 ''M'' 70 0 80 0 (-1) 3, person 1 ''F'' 45 1 80 1 (-1) 0], \<lambda>k. 0)"
  using dead_agent_frame[of 0 "[person 0 ''M'' 70 0 80 1 (-1) 3, person 1 ''F'' 40 1 80 1 (-1) 0]"
      "\<lambda>k. 0" "[]" "[person 0 ''M'' 70 0 80 1 (-1) 3, person 1 ''F'' 40 1 80 1 (-1) 0]" "\<lambda>k. 0"
      "[person 0 ''M'' 70 0 80 0 (-1) 3, person 1 ''F'' 45 1 80 1 (-1) 0]" "\<lambda>k. 0"]
    step_example_2
  by (simp add: person_def aging_update_def aging_one_def fertility_update_pop_def
      fertility_one_def get_single_people_def is_single_def Let_def)

theorem dead_agent_fertility_counterexample:
  "alive (person 0 ''M'' 20 0 80 0 (-1) 0) = 0 \<and>
   fertility_update_pop [person 0 ''M'' 20 0 80 0 (-1) 0] = [person 0 ''M'' 20 0 80 1 (-1) 0] \<and>
   person 0 ''M'' 20 0 80 1 (-1) 0 \<noteq> person 0 ''M'' 20 0 80 0 (-1) 0"
  by (simp add: person_def fertility_update_pop_def fertility_one_def)

section \<open>Fresh ids\<close>

lemma reproduce_ids:
  assumes r: "reproduce population couples g = Inr (population', g')"
    and m: "py_max (map agent_id population) = Inr mx"
  shows "map agent_id population' =
     map agent_id population @
     map (\<lambda>k. mx + 1 + int k) [0..<length population' - length population]"
proof (rule nth_equalityI)
  from r obtain mx' where "length population \<le> length population'"
    by (rule reproduce_children)
  then show len: "length (map agent_id population') =
      length (map agent_id population @
        map (\<lambda>k. mx + 1 + int k) [0..<length population' - length population])"
    by simp
  fix i assume "i < length (map agent_id population')"
  then have i: "i < length population'" by simp
  show "map agent_id population' ! i =
      (map agent_id population @
        map (\<lambda>k. mx + 1 + int k) [0..<length population' - length population]) ! i"
  proof (cases "i < length population")
    case True
    with reproduce_old_row(1)[OF r True] i show ?thesis by (simp add: nth_append)
  next
    case False
    then have ge: "length population \<le> i" by simp
    then have lt: "i - length population < length population' - length population"
      using i by simp
    have "[0..<length population' - length population] ! (i - length population) =
        i - length population"
      using lt by simp
    with reproduce_new_row(1)[OF r m ge i] False i lt show ?thesis
      by (simp add: nth_append)
  qed
qed

lemma step_ids:
  "map agent_id
     (fst (form_pairs (fertility_update_pop (aging_update (fst (death population g)))) g1)) =
   map agent_id population"
  by (simp only: map_agent_id_form_pairs vital_ids)

lemma step_partner_symmetric:
  assumes "valid_ids population" "partner_symmetric population"
  shows "partner_symmetric
     (fst (form_pairs (fertility_update_pop (aging_update (fst (death population g)))) g1))"
    and "valid_ids
     (fst (form_pairs (fertility_update_pop (aging_update (fst (death population g)))) g1))"
proof -
  let ?p3 = "fertility_update_pop (aging_update (fst (death population g)))"
  have v3: "valid_ids ?p3" by (rule valid_ids_transfer[OF vital_ids assms(1)])
  have s3: "partner_symmetric ?p3"
    by (rule partner_symmetric_transfer[OF vital_ids vital_partner_ids assms(2)])
  show "partner_symmetric (fst (form_pairs ?p3 g1))" by (rule form_pairs_symmetric[OF v3 s3])
  show "valid_ids (fst (form_pairs ?p3 g1))" by (rule form_pairs_valid_ids[OF v3])
qed

text \<open>
  C2. Ids that are pairwise distinct stay so. \<^verbatim>\<open>reproduce\<close> takes the maximum id of
  the table once; the ids of the table it returns are the old ids in their old places,
  followed by maximum + 1, maximum + 2, ... for the children in their order of birth,
  so every new id is greater than every id the call started with. A whole step leaves
  the old ids in place (no other pass writes an id) and returns distinct ids.
\<close>

theorem ids_stay_distinct:
  assumes "distinct (map agent_id population)"
  shows "(reproduce population couples g = Inr (population', g') \<longrightarrow>
            distinct (map agent_id population') \<and>
            (\<exists>mx. py_max (map agent_id population) = Inr mx \<and>
               mx \<in> set (map agent_id population) \<and>
               (\<forall>x \<in> set (map agent_id population). x \<le> mx) \<and>
               map agent_id population' =
                 map agent_id population @
                 map (\<lambda>k. mx + 1 + int k) [0..<length population' - length population]) \<and>
            (\<forall>k. length population \<le> k \<and> k < length population' \<longrightarrow>
               (\<forall>a \<in> set population. agent_id a < agent_id (population' ! k)))) \<and>
         (advance_one_step population g = Inr (population'', g'') \<longrightarrow>
            distinct (map agent_id population'') \<and>
            take (length population) (map agent_id population'') = map agent_id population)"
proof (intro conjI impI allI)
  {
    assume r: "reproduce population couples g = Inr (population', g')"
    show "distinct (map agent_id population')" by (rule reproduce_distinct[OF r assms])
    from r obtain mx where m: "py_max (map agent_id population) = Inr mx"
      by (rule reproduce_Inr_max)
    note b = py_max_Inr[OF m]
    show "\<exists>mx. py_max (map agent_id population) = Inr mx \<and>
               mx \<in> set (map agent_id population) \<and>
               (\<forall>x \<in> set (map agent_id population). x \<le> mx) \<and>
               map agent_id population' =
                 map agent_id population @
                 map (\<lambda>k. mx + 1 + int k) [0..<length population' - length population]"
      using m b reproduce_ids[OF r m] by blast
    fix k assume k: "length population \<le> k \<and> k < length population'"
    show "\<forall>a \<in> set population. agent_id a < agent_id (population' ! k)"
    proof
      fix a assume "a \<in> set population"
      then have "agent_id a \<in> set (map agent_id population)" by simp
      with b have "agent_id a \<le> mx" by blast
      moreover have "agent_id (population' ! k) = mx + 1 + int (k - length population)"
        using reproduce_new_row(1)[OF r m] k by blast
      ultimately show "agent_id a < agent_id (population' ! k)" by simp
    qed
  }
  {
    assume s: "advance_one_step population g = Inr (population'', g'')"
    let ?p4 = "fst (form_pairs (fertility_update_pop (aging_update (fst (death population g))))
              (snd (death population g)))"
    from s obtain cs where r: "reproduce ?p4 cs
        (snd (form_pairs (fertility_update_pop (aging_update (fst (death population g))))
              (snd (death population g)))) = Inr (population'', g'')"
      by (rule step_reproduce)
    have ids: "map agent_id ?p4 = map agent_id population" by (rule step_ids)
    then have d4: "distinct (map agent_id ?p4)" using assms by simp
    show "distinct (map agent_id population'')" by (rule reproduce_distinct[OF r d4])
    from r obtain mx where m: "py_max (map agent_id ?p4) = Inr mx"
      by (rule reproduce_Inr_max)
    have l: "length population = length (map agent_id ?p4)" using ids by simp
    have "take (length population) (map agent_id population'') = map agent_id ?p4"
      unfolding reproduce_ids[OF r m] l by simp
    then show "take (length population) (map agent_id population'') = map agent_id population"
      using ids by simp
  }
qed

lemma reproduce_example:
  "reproduce [person 5 ''M'' 30 1 80 1 6 0, person 6 ''F'' 28 1 80 1 5 0] [(0, 1)] (\<lambda>k. 0) =
     Inr ([person 5 ''M'' 30 1 80 1 6 1, person 6 ''F'' 28 1 80 1 5 1,
           person 7 ''F'' 0 1 70 0 (-1) 0], \<lambda>k. 0)"
  by (simp add: reproduce_def reproduce_couple_def py_random_def py_randint_def rng_tail_def
      person_def Let_def)

lemma step_example_3:
  "advance_one_step [person 5 ''M'' 40 1 80 1 6 0, person 6 ''F'' 40 1 80 1 5 0] (\<lambda>k. 0) =
     Inr ([person 5 ''M'' 45 1 80 1 6 1, person 6 ''F'' 45 1 80 1 5 1,
           person 7 ''F'' 0 1 70 0 (-1) 0], \<lambda>k. 0)"
  by (simp add: advance_one_step_def death_one_def mortality_check_def float_literals py_random_def
      py_randint_def rng_tail_def person_def aging_update_def aging_one_def
      fertility_update_pop_def fertility_one_def get_single_people_def is_single_def
      pair_people_def py_shuffle_def apply_pairs_def get_all_couples_def reproduce_def
      reproduce_couple_def Let_def)

theorem ids_stay_distinct_witness:
  "distinct (map agent_id [person 5 ''M'' 40 1 80 1 6 0, person 6 ''F'' 40 1 80 1 5 0]) \<and>
   advance_one_step [person 5 ''M'' 40 1 80 1 6 0, person 6 ''F'' 40 1 80 1 5 0] (\<lambda>k. 0) =
     Inr ([person 5 ''M'' 45 1 80 1 6 1, person 6 ''F'' 45 1 80 1 5 1,
           person 7 ''F'' 0 1 70 0 (-1) 0], \<lambda>k. 0) \<and>
   distinct (map agent_id [person 5 ''M'' 45 1 80 1 6 1, person 6 ''F'' 45 1 80 1 5 1,
           person 7 ''F'' 0 1 70 0 (-1) 0]) \<and>
   reproduce [person 5 ''M'' 30 1 80 1 6 0, person 6 ''F'' 28 1 80 1 5 0] [(0, 1)] (\<lambda>k. 0) =
     Inr ([person 5 ''M'' 30 1 80 1 6 1, person 6 ''F'' 28 1 80 1 5 1,
           person 7 ''F'' 0 1 70 0 (-1) 0], \<lambda>k. 0) \<and>
   py_max (map agent_id [person 5 ''M'' 30 1 80 1 6 0, person 6 ''F'' 28 1 80 1 5 0]) = Inr 6"
  using ids_stay_distinct[of "[person 5 ''M'' 40 1 80 1 6 0, person 6 ''F'' 40 1 80 1 5 0]"
      "[]" "\<lambda>k. 0" "[person 5 ''M'' 40 1 80 1 6 0, person 6 ''F'' 40 1 80 1 5 0]" "\<lambda>k. 0"
      "[person 5 ''M'' 45 1 80 1 6 1, person 6 ''F'' 45 1 80 1 5 1,
           person 7 ''F'' 0 1 70 0 (-1) 0]" "\<lambda>k. 0"]
    ids_stay_distinct[of "[person 5 ''M'' 30 1 80 1 6 0, person 6 ''F'' 28 1 80 1 5 0]"
      "[(0, 1)]" "\<lambda>k. 0" "[person 5 ''M'' 30 1 80 1 6 1, person 6 ''F'' 28 1 80 1 5 1,
           person 7 ''F'' 0 1 70 0 (-1) 0]" "\<lambda>k. 0" "[]" "\<lambda>k. 0"]
    step_example_3 reproduce_example
  by (simp add: person_def)

text \<open>
  C1. On a table with distinct, non-negative ids whose partner links are symmetric:
  the pairing commit of the driver (singles extracted, matched, committed) returns a
  table whose links are symmetric again, in which nobody is the partner of two rows and
  in which the two rows of every new pair name each other; \<^verbatim>\<open>reproduce\<close> returns a
  symmetric table and leaves the partner_id of every row it was given as it was; and so
  a whole step returns a table with symmetric links and distinct, non-negative ids.
\<close>

theorem partnership_symmetry_invariant:
  assumes "valid_ids population" and "partner_symmetric population"
  shows "(partner_symmetric (fst (form_pairs population g)) \<and>
          one_partner (fst (form_pairs population g)) \<and>
          (\<forall>pr \<in> set (pairs_of population g).
             partner_id (fst (form_pairs population g) ! fst pr) = agent_id (population ! snd pr) \<and>
             partner_id (fst (form_pairs population g) ! snd pr) = agent_id (population ! fst pr))) \<and>
         (reproduce population couples g = Inr (population', g') \<longrightarrow>
            partner_symmetric population' \<and> one_partner population' \<and>
            map partner_id (take (length population) population') = map partner_id population) \<and>
         (advance_one_step population g = Inr (population'', g'') \<longrightarrow>
            partner_symmetric population'' \<and> one_partner population'' \<and> valid_ids population'')"
proof (intro conjI impI ballI)
  note v = assms(1) and s = assms(2)
  show s1: "partner_symmetric (fst (form_pairs population g))"
    by (rule form_pairs_symmetric[OF v s])
  show "one_partner (fst (form_pairs population g))"
    by (rule symmetric_one_partner[OF form_pairs_valid_ids[OF v] s1])
  {
    fix pr assume "pr \<in> set (pairs_of population g)"
    then have m: "(fst pr, snd pr) \<in> set (pairs_of population g)" by simp
    note f = form_pairs_member[OF m]
    show "partner_id (fst (form_pairs population g) ! fst pr) = agent_id (population ! snd pr)"
      using f by (rule conjunct1)
    show "partner_id (fst (form_pairs population g) ! snd pr) = agent_id (population ! fst pr)"
      using f by (rule conjunct2)
  }
  {
    assume r: "reproduce population couples g = Inr (population', g')"
    show s2: "partner_symmetric population'" by (rule reproduce_symmetric[OF r s])
    show "one_partner population'"
      by (rule symmetric_one_partner[OF reproduce_valid_ids[OF r v] s2])
    show "map partner_id (take (length population) population') = map partner_id population"
    proof (rule nth_equalityI)
      from r obtain mx where le: "length population \<le> length population'"
        by (rule reproduce_children)
      then show "length (map partner_id (take (length population) population')) =
          length (map partner_id population)" by simp
      fix i assume "i < length (map partner_id (take (length population) population'))"
      then have i: "i < length population" by simp
      from reproduce_old_row(2)[OF r i] i le
      show "map partner_id (take (length population) population') ! i =
          map partner_id population ! i" by simp
    qed
  }
  {
    assume st: "advance_one_step population g = Inr (population'', g'')"
    let ?p4 = "fst (form_pairs (fertility_update_pop (aging_update (fst (death population g))))
              (snd (death population g)))"
    from st obtain cs where r: "reproduce ?p4 cs
        (snd (form_pairs (fertility_update_pop (aging_update (fst (death population g))))
              (snd (death population g)))) = Inr (population'', g'')"
      by (rule step_reproduce)
    note p4 = step_partner_symmetric[OF v s, of g "snd (death population g)"]
    show s3: "partner_symmetric population''" by (rule reproduce_symmetric[OF r p4(1)])
    show v3: "valid_ids population''" by (rule reproduce_valid_ids[OF r p4(2)])
    show "one_partner population''" by (rule symmetric_one_partner[OF v3 s3])
  }
qed

lemma form_pairs_example:
  "fst (form_pairs [person 0 ''M'' 30 1 80 1 1 0, person 1 ''F'' 28 1 80 1 0 0,
                    person 2 ''M'' 25 1 80 1 (-1) 0, person 3 ''F'' 27 1 80 1 (-1) 0] (\<lambda>k. 0)) =
     [person 0 ''M'' 30 1 80 1 1 0, person 1 ''F'' 28 1 80 1 0 0,
      person 2 ''M'' 25 1 80 1 3 0, person 3 ''F'' 27 1 80 1 2 0]"
  by (simp add: form_pairs_def get_single_people_def is_single_def pair_people_def
      py_shuffle_def rng_tail_def apply_pairs_def apply_pair_def person_def Let_def)

theorem partnership_symmetry_invariant_witness:
  "valid_ids [person 0 ''M'' 30 1 80 1 1 0, person 1 ''F'' 28 1 80 1 0 0,
              person 2 ''M'' 25 1 80 1 (-1) 0, person 3 ''F'' 27 1 80 1 (-1) 0] \<and>
   partner_symmetric [person 0 ''M'' 30 1 80 1 1 0, person 1 ''F'' 28 1 80 1 0 0,
              person 2 ''M'' 25 1 80 1 (-1) 0, person 3 ''F'' 27 1 80 1 (-1) 0] \<and>
   fst (form_pairs [person 0 ''M'' 30 1 80 1 1 0, person 1 ''F'' 28 1 80 1 0 0,
                    person 2 ''M'' 25 1 80 1 (-1) 0, person 3 ''F'' 27 1 80 1 (-1) 0] (\<lambda>k. 0)) =
     [person 0 ''M'' 30 1 80 1 1 0, person 1 ''F'' 28 1 80 1 0 0,
      person 2 ''M'' 25 1 80 1 3 0, person 3 ''F'' 27 1 80 1 2 0] \<and>
   partner_symmetric [person 0 ''M'' 30 1 80 1 1 0, person 1 ''F'' 28 1 80 1 0 0,
      person 2 ''M'' 25 1 80 1 3 0, person 3 ''F'' 27 1 80 1 2 0]"
proof -
  have v: "valid_ids [person 0 ''M'' 30 1 80 1 1 0, person 1 ''F'' 28 1 80 1 0 0,
              person 2 ''M'' 25 1 80 1 (-1) 0, person 3 ''F'' 27 1 80 1 (-1) 0]"
    by (simp add: valid_ids_def person_def)
  have s: "partner_symmetric [person 0 ''M'' 30 1 80 1 1 0, person 1 ''F'' 28 1 80 1 0 0,
              person 2 ''M'' 25 1 80 1 (-1) 0, person 3 ''F'' 27 1 80 1 (-1) 0]"
    by (simp add: partner_symmetric_def person_def)
  from partnership_symmetry_invariant[OF v s, of "\<lambda>k. 0"]
  have "partner_symmetric (fst (form_pairs [person 0 ''M'' 30 1 80 1 1 0,
      person 1 ''F'' 28 1 80 1 0 0, person 2 ''M'' 25 1 80 1 (-1) 0,
      person 3 ''F'' 27 1 80 1 (-1) 0] (\<lambda>k. 0)))"
    by (rule conjunct1[OF conjunct1])
  then show ?thesis using v s by (simp only: form_pairs_example)
qed

section \<open>Reproduction: the loop state\<close>

lemma repro_fold_agent_id:
  assumes "i < length (rs_population st)"
  shows "agent_id (rs_population (fold reproduce_couple cs st) ! i) =
         agent_id (rs_population st ! i)"
proof -
  have "(rs_population (fold reproduce_couple cs st) ! i)
     \<lparr>children_count := children_count (rs_population st ! i)\<rparr> = rs_population st ! i"
    using repro_fold_row[OF assms, of cs] by (rule conjunct1)
  then have "agent_id ((rs_population (fold reproduce_couple cs st) ! i)
     \<lparr>children_count := children_count (rs_population st ! i)\<rparr>) =
     agent_id (rs_population st ! i)" by (simp only:)
  then show ?thesis by simp
qed

lemma reachable_ids_below_next:
  assumes m: "py_max (map agent_id population) = Inr mx"
    and st: "st = fold reproduce_couple processed
       \<lparr>rs_population = population, rs_next_id = mx + 1, rs_new_children = [], rs_rng = g\<rparr>"
  shows "length (rs_population st) = length population"
    and "\<forall>p \<in> set (rs_population st) \<union> set (rs_new_children st). agent_id p < rs_next_id st"
proof -
  let ?ini = "\<lparr>rs_population = population, rs_next_id = mx + 1, rs_new_children = [], rs_rng = g\<rparr>"
  show len: "length (rs_population st) = length population"
    unfolding st by (simp add: repro_fold_length)
  have "fresh_ids (mx + 1) ?ini" by (simp add: fresh_ids_def)
  then have "fresh_ids (mx + 1) (fold reproduce_couple processed ?ini)" by (rule fresh_ids_fold)
  then have fr: "fresh_ids (mx + 1) st" by (simp only: st)
  then have nx: "rs_next_id st = mx + 1 + int (length (rs_new_children st))"
    and ids: "map agent_id (rs_new_children st) =
       map (\<lambda>k. mx + 1 + int k) [0..<length (rs_new_children st)]"
    by (simp_all add: fresh_ids_def)
  have old: "agent_id p < rs_next_id st" if "p \<in> set (rs_population st)" for p
  proof -
    from that obtain i where i: "i < length (rs_population st)" "rs_population st ! i = p"
      by (auto simp add: in_set_conv_nth)
    from i(1) len have i0: "i < length (rs_population ?ini)" by simp
    have "agent_id (rs_population st ! i) = agent_id (rs_population ?ini ! i)"
      unfolding st by (rule repro_fold_agent_id[OF i0])
    then have "agent_id p = agent_id (population ! i)" using i(2) by simp
    moreover have "agent_id (population ! i) \<le> mx"
      using py_max_bound[OF m] i(1) len by simp
    ultimately show ?thesis using nx by simp
  qed
  have new: "agent_id p < rs_next_id st" if "p \<in> set (rs_new_children st)" for p
  proof -
    from that obtain k where k: "k < length (rs_new_children st)" "rs_new_children st ! k = p"
      by (auto simp add: in_set_conv_nth)
    have "map agent_id (rs_new_children st) ! k =
        map (\<lambda>k. mx + 1 + int k) [0..<length (rs_new_children st)] ! k"
      by (simp only: ids)
    then have "agent_id p = mx + 1 + int k" using k by simp
    then show ?thesis using nx k(1) by simp
  qed
  show "\<forall>p \<in> set (rs_population st) \<union> set (rs_new_children st). agent_id p < rs_next_id st"
    using old new by blast
qed

lemma reproduce_split:
  assumes m: "py_max (map agent_id population) = Inr mx"
  shows "reproduce population (processed @ cpl # rest) g =
     Inr (rs_population
            (fold reproduce_couple rest (reproduce_couple cpl
               (fold reproduce_couple processed
                  \<lparr>rs_population = population, rs_next_id = mx + 1, rs_new_children = [],
                   rs_rng = g\<rparr>))) @
          rs_new_children
            (fold reproduce_couple rest (reproduce_couple cpl
               (fold reproduce_couple processed
                  \<lparr>rs_population = population, rs_next_id = mx + 1, rs_new_children = [],
                   rs_rng = g\<rparr>))),
          rs_rng
            (fold reproduce_couple rest (reproduce_couple cpl
               (fold reproduce_couple processed
                  \<lparr>rs_population = population, rs_next_id = mx + 1, rs_new_children = [],
                   rs_rng = g\<rparr>))))"
  by (simp add: reproduce_def m Let_def)

lemma py_randint_0_1: "fst (py_randint 0 1 g) = 0 \<or> fst (py_randint 0 1 g) = 1"
proof -
  have "int (g 0) mod 2 = 0 \<or> int (g 0) mod 2 = 1" by presburger
  then show ?thesis by (simp add: py_randint_def)
qed

lemma self_couple_example:
  "get_all_couples [person 0 ''M'' 30 1 80 1 0 2] = Inr [(0, 0)]"
  by (simp add: get_all_couples_def person_def)

lemma self_couple_reproduce:
  "reproduce [person 0 ''M'' 30 1 80 1 0 2] [(0, 0)] (\<lambda>k. 0) =
     Inr ([person 0 ''M'' 30 1 80 1 0 4, person 1 ''F'' 0 1 70 0 (-1) 0], \<lambda>k. 0)"
  by (simp add: reproduce_def reproduce_couple_def py_random_def py_randint_def rng_tail_def
      person_def Let_def)

text \<open>
  C5, as the code has it. Let \<open>st\<close> be the loop state of \<^verbatim>\<open>reproduce\<close> after any
  number of couples, and (man, woman) the next couple, rows of the table. The table
  inside the loop keeps the length it had when \<^verbatim>\<open>reproduce\<close> was called. If one of
  the two is not alive or not fertile the state is unchanged: no draw, no child, no
  counter. If both are, one draw is made; when it is not below 0.5 only the entropy
  source moves; when it is, exactly one child is added to \<^verbatim>\<open>new_children\<close>, with age
  0, alive, infertile, without partner or children, of sex M or F, with an id greater
  than every id in the table and among the children so far, and the code adds 1 to the
  children_count of the man and then 1 to that of the woman, while every other row and
  field stays. When man and woman are two rows, each counter grows by exactly 1. When
  they are one and the same row, which \<^verbatim>\<open>get_all_couples\<close> returns as a couple for a
  row whose partner_id is its own id, that row's counter grows by 2. The table returned
  is the table of the final state followed by all the children.
\<close>

theorem reproduce_couple_rule:
  assumes m: "py_max (map agent_id population) = Inr mx"
    and st: "st = fold reproduce_couple processed
       \<lparr>rs_population = population, rs_next_id = mx + 1, rs_new_children = [], rs_rng = g\<rparr>"
    and mw: "man < length population" "woman < length population"
  shows "length (rs_population st) = length population \<and>
    (\<not> eligible (rs_population st) (man, woman) \<longrightarrow> reproduce_couple (man, woman) st = st) \<and>
    (eligible (rs_population st) (man, woman) \<and> \<not> fst (py_random (rs_rng st)) < 0.5 \<longrightarrow>
       reproduce_couple (man, woman) st = st\<lparr>rs_rng := snd (py_random (rs_rng st))\<rparr>) \<and>
    (eligible (rs_population st) (man, woman) \<and> fst (py_random (rs_rng st)) < 0.5 \<longrightarrow>
       (\<exists>child. rs_new_children (reproduce_couple (man, woman) st) =
                   rs_new_children st @ [child] \<and>
          is_newborn child \<and> (sex child = ''M'' \<or> sex child = ''F'') \<and>
          (\<forall>p \<in> set (rs_population st) \<union> set (rs_new_children st).
             agent_id p < agent_id child)) \<and>
       (man \<noteq> woman \<longrightarrow>
          rs_population (reproduce_couple (man, woman) st) =
            (rs_population st)
              [man := (rs_population st ! man)
                 \<lparr>children_count := children_count (rs_population st ! man) + 1\<rparr>,
               woman := (rs_population st ! woman)
                 \<lparr>children_count := children_count (rs_population st ! woman) + 1\<rparr>] \<and>
          children_count (rs_population (reproduce_couple (man, woman) st) ! man) =
            children_count (rs_population st ! man) + 1 \<and>
          children_count (rs_population (reproduce_couple (man, woman) st) ! woman) =
            children_count (rs_population st ! woman) + 1) \<and>
       (man = woman \<longrightarrow>
          rs_population (reproduce_couple (man, woman) st) =
            (rs_population st)
              [man := (rs_population st ! man)
                 \<lparr>children_count := children_count (rs_population st ! man) + 2\<rparr>] \<and>
          children_count (rs_population (reproduce_couple (man, woman) st) ! man) =
            children_count (rs_population st ! man) + 2) \<and>
       (\<forall>i < length population. i \<noteq> man \<and> i \<noteq> woman \<longrightarrow>
          rs_population (reproduce_couple (man, woman) st) ! i = rs_population st ! i) \<and>
       (\<forall>i < length population.
          (rs_population (reproduce_couple (man, woman) st) ! i)
            \<lparr>children_count := children_count (rs_population st ! i)\<rparr> =
          rs_population st ! i)) \<and>
    reproduce population (processed @ (man, woman) # rest) g =
      Inr (rs_population (fold reproduce_couple rest (reproduce_couple (man, woman) st)) @
           rs_new_children (fold reproduce_couple rest (reproduce_couple (man, woman) st)),
           rs_rng (fold reproduce_couple rest (reproduce_couple (man, woman) st))) \<and>
    length (rs_population (fold reproduce_couple rest (reproduce_couple (man, woman) st))) =
      length population"
proof (intro conjI impI)
  note r = reachable_ids_below_next[OF m st]
  show len: "length (rs_population st) = length population" by (rule r(1))
  show "reproduce_couple (man, woman) st = st" if "\<not> eligible (rs_population st) (man, woman)"
    using that by (rule reproduce_couple_skip)
  show "reproduce_couple (man, woman) st = st\<lparr>rs_rng := snd (py_random (rs_rng st))\<rparr>"
    if "eligible (rs_population st) (man, woman) \<and> \<not> fst (py_random (rs_rng st)) < 0.5"
    using reproduce_couple_miss[of st "(man, woman)"] that by (simp add: py_random_def)
  show "reproduce population (processed @ (man, woman) # rest) g =
      Inr (rs_population (fold reproduce_couple rest (reproduce_couple (man, woman) st)) @
           rs_new_children (fold reproduce_couple rest (reproduce_couple (man, woman) st)),
           rs_rng (fold reproduce_couple rest (reproduce_couple (man, woman) st)))"
    unfolding st by (rule reproduce_split[OF m])
  show "length (rs_population (fold reproduce_couple rest (reproduce_couple (man, woman) st))) =
      length population"
    using len by (simp add: repro_fold_length reproduce_couple_length)
  {
    assume b: "eligible (rs_population st) (man, woman) \<and> fst (py_random (rs_rng st)) < 0.5"
    then have e: "eligible (rs_population st) (man, woman)"
      and d: "fst (py_random (rs_rng st)) < 0.5" by simp_all
    note birth = reproduce_couple_birth[OF e d]
    let ?child = "\<lparr>agent_id = rs_next_id st,
        sex = (if fst (py_randint 0 1 (rng_tail (rs_rng st))) = 1 then ''M'' else ''F''),
        age = 0, alive = 1,
        health = fst (py_randint 70 100 (rng_tail (rng_tail (rs_rng st)))),
        fertility = 0, partner_id = -1, children_count = 0\<rparr>"
    have kids: "rs_new_children (reproduce_couple (man, woman) st) =
        rs_new_children st @ [?child]"
      by (simp add: birth Let_def)
    have nb: "is_newborn ?child" by (simp add: is_newborn_def)
    have sx: "sex ?child = ''M'' \<or> sex ?child = ''F''" by simp
    have fresh: "\<forall>p \<in> set (rs_population st) \<union> set (rs_new_children st).
        agent_id p < agent_id ?child"
      using r(2) by simp
    show "\<exists>child. rs_new_children (reproduce_couple (man, woman) st) =
                   rs_new_children st @ [child] \<and>
          is_newborn child \<and> (sex child = ''M'' \<or> sex child = ''F'') \<and>
          (\<forall>p \<in> set (rs_population st) \<union> set (rs_new_children st).
             agent_id p < agent_id child)"
      using kids nb sx fresh by blast
    show "\<forall>i < length population. i \<noteq> man \<and> i \<noteq> woman \<longrightarrow>
        rs_population (reproduce_couple (man, woman) st) ! i = rs_population st ! i"
      by (simp add: birth Let_def)
    show "\<forall>i < length population.
        (rs_population (reproduce_couple (man, woman) st) ! i)
          \<lparr>children_count := children_count (rs_population st ! i)\<rparr> =
        rs_population st ! i"
      using len reproduce_couple_row[of _ st "(man, woman)"] by simp
    {
      assume ne: "man \<noteq> woman"
      show tab: "rs_population (reproduce_couple (man, woman) st) =
           (rs_population st)
             [man := (rs_population st ! man)
                \<lparr>children_count := children_count (rs_population st ! man) + 1\<rparr>,
              woman := (rs_population st ! woman)
                \<lparr>children_count := children_count (rs_population st ! woman) + 1\<rparr>]"
        using ne by (simp add: birth Let_def)
      show "children_count (rs_population (reproduce_couple (man, woman) st) ! man) =
           children_count (rs_population st ! man) + 1"
        unfolding tab using ne mw len by simp
      show "children_count (rs_population (reproduce_couple (man, woman) st) ! woman) =
           children_count (rs_population st ! woman) + 1"
        unfolding tab using ne mw len by simp
    }
    {
      assume eq: "man = woman"
      let ?pop1 = "(rs_population st)
          [man := (rs_population st ! man)
             \<lparr>children_count := children_count (rs_population st ! man) + 1\<rparr>]"
      have "rs_population (reproduce_couple (man, woman) st) =
          ?pop1[woman := (?pop1 ! woman)\<lparr>children_count := children_count (?pop1 ! woman) + 1\<rparr>]"
        by (simp add: birth Let_def)
      then show self: "rs_population (reproduce_couple (man, woman) st) =
           (rs_population st)
             [man := (rs_population st ! man)
                \<lparr>children_count := children_count (rs_population st ! man) + 2\<rparr>]"
        using eq mw len by (simp add: add.commute)
      show "children_count (rs_population (reproduce_couple (man, woman) st) ! man) =
           children_count (rs_population st ! man) + 2"
        unfolding self using mw len by simp
    }
  }
qed

theorem reproduce_couple_rule_witness:
  "py_max (map agent_id [person 5 ''M'' 30 1 80 1 6 0, person 6 ''F'' 28 1 80 1 5 0]) = Inr 6 \<and>
   eligible [person 5 ''M'' 30 1 80 1 6 0, person 6 ''F'' 28 1 80 1 5 0] (0, 1) \<and>
   fst (py_random (\<lambda>k. 0)) < 0.5 \<and>
   reproduce_couple (0, 1)
     \<lparr>rs_population = [person 5 ''M'' 30 1 80 1 6 0, person 6 ''F'' 28 1 80 1 5 0],
      rs_next_id = 6 + 1, rs_new_children = [], rs_rng = \<lambda>k. 0\<rparr> =
     \<lparr>rs_population = [person 5 ''M'' 30 1 80 1 6 1, person 6 ''F'' 28 1 80 1 5 1],
      rs_next_id = 8, rs_new_children = [person 7 ''F'' 0 1 70 0 (-1) 0], rs_rng = \<lambda>k. 0\<rparr> \<and>
   reproduce [person 5 ''M'' 30 1 80 1 6 0, person 6 ''F'' 28 1 80 1 5 0] [(0, 1)] (\<lambda>k. 0) =
     Inr ([person 5 ''M'' 30 1 80 1 6 1, person 6 ''F'' 28 1 80 1 5 1,
           person 7 ''F'' 0 1 70 0 (-1) 0], \<lambda>k. 0) \<and>
   rs_population (reproduce_couple (0, 0)
     \<lparr>rs_population = [person 0 ''M'' 30 1 80 1 0 2],
      rs_next_id = 0 + 1, rs_new_children = [], rs_rng = \<lambda>k. 0\<rparr>) =
     [person 0 ''M'' 30 1 80 1 0 4]"
proof -
  have m: "py_max (map agent_id [person 5 ''M'' 30 1 80 1 6 0, person 6 ''F'' 28 1 80 1 5 0]) =
      Inr 6" by (simp add: person_def)
  have st: "\<lparr>rs_population = [person 5 ''M'' 30 1 80 1 6 0, person 6 ''F'' 28 1 80 1 5 0],
      rs_next_id = 6 + 1, rs_new_children = [], rs_rng = \<lambda>k. 0\<rparr> =
      fold reproduce_couple []
       \<lparr>rs_population = [person 5 ''M'' 30 1 80 1 6 0, person 6 ''F'' 28 1 80 1 5 0],
        rs_next_id = 6 + 1, rs_new_children = [], rs_rng = \<lambda>k. 0\<rparr>" by simp
  have r: "0 < length [person 5 ''M'' 30 1 80 1 6 0, person 6 ''F'' 28 1 80 1 5 0]"
    "1 < length [person 5 ''M'' 30 1 80 1 6 0, person 6 ''F'' 28 1 80 1 5 0]" by simp_all
  have m': "py_max (map agent_id [person 0 ''M'' 30 1 80 1 0 2]) = Inr 0"
    by (simp add: person_def)
  have st': "\<lparr>rs_population = [person 0 ''M'' 30 1 80 1 0 2],
      rs_next_id = 0 + 1, rs_new_children = [], rs_rng = \<lambda>k. 0\<rparr> =
      fold reproduce_couple []
       \<lparr>rs_population = [person 0 ''M'' 30 1 80 1 0 2],
        rs_next_id = 0 + 1, rs_new_children = [], rs_rng = \<lambda>k. 0\<rparr>" by simp
  have r': "0 < length [person 0 ''M'' 30 1 80 1 0 2]" by simp
  from reproduce_couple_rule[OF m st r, of "[]"] reproduce_couple_rule[OF m' st' r' r', of "[]"]
  show ?thesis
    by (simp add: m eligible_def reproduce_couple_def py_random_def py_randint_def rng_tail_def
        person_def Let_def)
qed

theorem self_couple_counterexample:
  "partner_id (person 0 ''M'' 30 1 80 1 0 2) = agent_id (person 0 ''M'' 30 1 80 1 0 2) \<and>
   get_all_couples [person 0 ''M'' 30 1 80 1 0 2] = Inr [(0, 0)] \<and>
   eligible [person 0 ''M'' 30 1 80 1 0 2] (0, 0) \<and>
   fst (py_random (\<lambda>k. 0)) < 0.5 \<and>
   reproduce [person 0 ''M'' 30 1 80 1 0 2] [(0, 0)] (\<lambda>k. 0) =
     Inr ([person 0 ''M'' 30 1 80 1 0 4, person 1 ''F'' 0 1 70 0 (-1) 0], \<lambda>k. 0) \<and>
   children_count (person 0 ''M'' 30 1 80 1 0 4) \<noteq>
     children_count (person 0 ''M'' 30 1 80 1 0 2) + 1"
  using self_couple_example self_couple_reproduce
  by (simp add: person_def eligible_def py_random_def)

section \<open>Couple extraction\<close>

lemma first_index_None: "first_index P xs = None \<longleftrightarrow> (\<forall>x \<in> set xs. \<not> P x)"
  by (induction xs) simp_all

lemma first_index_Some:
  "first_index P xs = Some j \<Longrightarrow> j < length xs \<and> P (xs ! j) \<and> (\<forall>k < j. \<not> P (xs ! k))"
proof (induction xs arbitrary: j)
  case Nil
  then show ?case by simp
next
  case (Cons x xs)
  show ?case
  proof (cases "P x")
    case True
    with Cons.prems show ?thesis by simp
  next
    case False
    with Cons.prems obtain j' where j': "first_index P xs = Some j'" "j = Suc j'"
      by (cases "first_index P xs") simp_all
    from Cons.IH[OF j'(1)] False j'(2) show ?thesis
      by (auto simp add: less_Suc_eq_0_disj)
  qed
qed

lemma member_ids_snoc:
  "member_ids population (couples @ [(i, j)]) =
     insert (agent_id (population ! j)) (insert (agent_id (population ! i))
       (member_ids population couples))"
  by (auto simp add: member_ids_def)

lemma couples_loop_skip:
  "partner_id (population ! i) = -1 \<or> agent_id (population ! i) \<in> visited \<Longrightarrow>
   couples_loop population (i # rest) couples visited =
     couples_loop population rest couples visited"
  by (auto simp add: Let_def)

lemma couples_loop_emit:
  "partner_id (population ! i) \<noteq> -1 \<Longrightarrow> agent_id (population ! i) \<notin> visited \<Longrightarrow>
   first_index (\<lambda>x. agent_id x = partner_id (population ! i)) population = Some j \<Longrightarrow>
   couples_loop population (i # rest) couples visited =
     couples_loop population rest (couples @ [(i, j)])
       (insert (agent_id (population ! j)) (insert (agent_id (population ! i)) visited))"
  by (simp add: Let_def)

lemma couples_loop_fail:
  "partner_id (population ! i) \<noteq> -1 \<Longrightarrow> agent_id (population ! i) \<notin> visited \<Longrightarrow>
   first_index (\<lambda>x. agent_id x = partner_id (population ! i)) population = None \<Longrightarrow>
   couples_loop population (i # rest) couples visited = Inl StopIteration"
  by (simp add: Let_def)

lemma couples_loop_total:
  assumes "referential_integrity population" "set rest \<subseteq> {0..<length population}"
  shows "\<exists>cs. couples_loop population rest couples visited = Inr cs"
  using assms(2)
proof (induction rest arbitrary: couples visited)
  case Nil
  then show ?case by simp
next
  case (Cons i rest)
  then have i: "i < length population" and r: "set rest \<subseteq> {0..<length population}" by simp_all
  show ?case
  proof (cases "partner_id (population ! i) \<noteq> -1 \<and> agent_id (population ! i) \<notin> visited")
    case True
    have "population ! i \<in> set population" using i by simp
    with assms(1) True
    have "\<exists>b \<in> set population. agent_id b = partner_id (population ! i)"
      unfolding referential_integrity_def by blast
    then have "first_index (\<lambda>x. agent_id x = partner_id (population ! i)) population \<noteq> None"
      by (simp add: first_index_None)
    then obtain j where
      j: "first_index (\<lambda>x. agent_id x = partner_id (population ! i)) population = Some j"
      by blast
    from True have t: "partner_id (population ! i) \<noteq> -1" "agent_id (population ! i) \<notin> visited"
      by simp_all
    show ?thesis by (simp only: couples_loop_emit[OF t j] Cons.IH[OF r])
  next
    case False
    then have sk: "partner_id (population ! i) = -1 \<or> agent_id (population ! i) \<in> visited"
      by blast
    show ?thesis by (simp only: couples_loop_skip[OF sk] Cons.IH[OF r])
  qed
qed

lemma couples_ok_snoc:
  assumes "couples_ok population couples" "i < length population"
    and "partner_id (population ! i) \<noteq> -1"
    and "first_index (\<lambda>x. agent_id x = partner_id (population ! i)) population = Some j"
    and "agent_id (population ! i) \<notin> member_ids population couples"
  shows "couples_ok population (couples @ [(i, j)])"
proof -
  have j: "j < length population" using first_index_Some[OF assms(4)] by simp
  have a: "\<forall>c \<in> set (couples @ [(i, j)]).
        fst c < length population \<and> snd c < length population \<and>
        partner_id (population ! fst c) \<noteq> -1 \<and>
        first_index (\<lambda>x. agent_id x = partner_id (population ! fst c)) population =
          Some (snd c)"
    using assms(1-4) j by (auto simp add: couples_ok_def)
  have b: "agent_id (population ! fst ((couples @ [(i, j)]) ! l)) \<notin>
        member_ids population (take l (couples @ [(i, j)]))"
    if "l < length (couples @ [(i, j)])" for l
  proof (cases "l < length couples")
    case True
    with assms(1) show ?thesis by (simp add: couples_ok_def nth_append)
  next
    case False
    with that have "l = length couples" by simp
    with assms(5) show ?thesis by simp
  qed
  show ?thesis unfolding couples_ok_def using a b by blast
qed

lemma couples_loop_result:
  assumes "couples_loop population rest couples visited = Inr cs"
    and "set rest \<subseteq> {0..<length population}"
    and "visited = member_ids population couples"
    and "couples_ok population couples"
  shows "couples_ok population cs \<and> member_ids population couples \<subseteq> member_ids population cs \<and>
         (\<forall>i \<in> set rest. partner_id (population ! i) \<noteq> -1 \<longrightarrow>
            agent_id (population ! i) \<in> member_ids population cs)"
  using assms
proof (induction rest arbitrary: couples visited)
  case Nil
  then show ?case by simp
next
  case (Cons i rest)
  from Cons.prems(2) have i: "i < length population"
    and r: "set rest \<subseteq> {0..<length population}" by simp_all
  show ?case
  proof (cases "partner_id (population ! i) \<noteq> -1 \<and> agent_id (population ! i) \<notin> visited")
    case False
    then have sk: "partner_id (population ! i) = -1 \<or> agent_id (population ! i) \<in> visited"
      by blast
    from Cons.prems(1) have l: "couples_loop population rest couples visited = Inr cs"
      by (simp only: couples_loop_skip[OF sk])
    note IH = Cons.IH[OF l r Cons.prems(3) Cons.prems(4)]
    have "agent_id (population ! i) \<in> member_ids population cs"
      if "partner_id (population ! i) \<noteq> -1"
    proof -
      from that sk have "agent_id (population ! i) \<in> visited" by blast
      with Cons.prems(3) IH show ?thesis by blast
    qed
    with IH show ?thesis by simp
  next
    case True
    then have t: "partner_id (population ! i) \<noteq> -1" "agent_id (population ! i) \<notin> visited"
      by simp_all
    have "first_index (\<lambda>x. agent_id x = partner_id (population ! i)) population \<noteq> None"
    proof
      assume "first_index (\<lambda>x. agent_id x = partner_id (population ! i)) population = None"
      from couples_loop_fail[OF t this, of rest couples] Cons.prems(1) show False by simp
    qed
    then obtain j where
      j: "first_index (\<lambda>x. agent_id x = partner_id (population ! i)) population = Some j"
      by blast
    let ?c = "couples @ [(i, j)]"
    let ?v = "insert (agent_id (population ! j)) (insert (agent_id (population ! i)) visited)"
    from Cons.prems(1) have l: "couples_loop population rest ?c ?v = Inr cs"
      by (simp only: couples_loop_emit[OF t j])
    have v: "?v = member_ids population ?c"
      by (simp only: member_ids_snoc Cons.prems(3))
    have ok: "couples_ok population ?c"
      using Cons.prems(3,4) i t j by (intro couples_ok_snoc) simp_all
    note IH = Cons.IH[OF l r v ok]
    have sub: "member_ids population couples \<subseteq> member_ids population ?c"
      by (auto simp only: member_ids_snoc)
    have "agent_id (population ! i) \<in> member_ids population ?c"
      by (simp only: member_ids_snoc) simp
    with IH sub show ?thesis by auto
  qed
qed

lemma get_all_couples_ok:
  assumes "get_all_couples population = Inr cs"
  shows "couples_ok population cs"
    and "\<forall>a \<in> set population. partner_id a \<noteq> -1 \<longrightarrow> agent_id a \<in> member_ids population cs"
proof -
  have e: "couples_loop population [0..<length population] [] {} = Inr cs"
    using assms by (simp add: get_all_couples_def)
  have r: "set [0..<length population] \<subseteq> {0..<length population}" by simp
  have v: "{} = member_ids population []" by (simp add: member_ids_def)
  have ok: "couples_ok population []" by (simp add: couples_ok_def)
  note res = couples_loop_result[OF e r v ok]
  show "couples_ok population cs" using res by (rule conjunct1)
  show "\<forall>a \<in> set population. partner_id a \<noteq> -1 \<longrightarrow> agent_id a \<in> member_ids population cs"
  proof (intro ballI impI)
    fix a assume "a \<in> set population" and p: "partner_id a \<noteq> -1"
    then obtain i where i: "i < length population" "population ! i = a"
      by (auto simp add: in_set_conv_nth)
    then have "i \<in> set [0..<length population]" by simp
    with res p i(2) show "agent_id a \<in> member_ids population cs" by blast
  qed
qed

lemma couples_ok_earlier:
  assumes ok: "couples_ok population cs" and l: "l < length cs" and k: "k < l"
  shows "agent_id (population ! fst (cs ! l)) \<noteq> agent_id (population ! fst (cs ! k)) \<and>
         agent_id (population ! fst (cs ! l)) \<noteq> agent_id (population ! snd (cs ! k))"
proof -
  from ok l have n: "agent_id (population ! fst (cs ! l)) \<notin> member_ids population (take l cs)"
    by (simp add: couples_ok_def)
  have "cs ! k \<in> set (take l cs)"
    using k l by (metis in_set_conv_nth length_take min.absorb2 nth_take order_less_imp_le)
  then have "agent_id (population ! fst (cs ! k)) \<in> member_ids population (take l cs)"
    and "agent_id (population ! snd (cs ! k)) \<in> member_ids population (take l cs)"
    by (simp_all add: member_ids_def)
  with n show ?thesis by metis
qed

lemma couples_ok_distinct:
  assumes ok: "couples_ok population cs"
  shows "distinct cs"
proof -
  have "cs ! l \<noteq> cs ! k" if "l < length cs" "k < length cs" "l \<noteq> k" for l k
  proof (cases "k < l")
    case True
    from couples_ok_earlier[OF ok that(1) True] show ?thesis by metis
  next
    case False
    with that(3) have "l < k" by simp
    from couples_ok_earlier[OF ok that(2) this] show ?thesis by metis
  qed
  then show ?thesis by (simp add: distinct_conv_nth)
qed

lemma couples_ok_no_mirror:
  assumes ok: "couples_ok population cs" and c: "c \<in> set cs" and c': "prod.swap c \<in> set cs"
  shows "fst c = snd c"
proof -
  from c obtain k where k: "k < length cs" "cs ! k = c" by (auto simp add: in_set_conv_nth)
  from c' obtain l where l: "l < length cs" "cs ! l = prod.swap c"
    by (auto simp add: in_set_conv_nth)
  show ?thesis
  proof (cases "k = l")
    case True
    with k(2) l(2) have "c = prod.swap c" by simp
    then show ?thesis by (metis fst_swap)
  next
    case False
    show ?thesis
    proof (cases "k < l")
      case True
      from couples_ok_earlier[OF ok l(1) True] k(2) l(2) show ?thesis by simp
    next
      case no: False
      with False have "l < k" by simp
      from couples_ok_earlier[OF ok k(1) this] k(2) l(2) show ?thesis by simp
    qed
  qed
qed

lemma dangling_example:
  "load_population (Some (header @ ''0,M,33,1,73,1,99,0'' @ [newline])) =
     Inr [person 0 ''M'' 33 1 73 1 99 0]"
  by code_simp

lemma dangling_couples:
  "get_all_couples [person 0 ''M'' 33 1 73 1 99 0] = Inl StopIteration"
  by (simp add: get_all_couples_def person_def Let_def)

lemma dangling_not_integral: "\<not> referential_integrity [person 0 ''M'' 33 1 73 1 99 0]"
  by (simp add: referential_integrity_def person_def)

text \<open>
  C10. On a table in which every partner_id other than -1 is the id of some row, the
  lookup of \<^verbatim>\<open>get_all_couples\<close> never raises and the function returns: each couple it
  returns is a row with a partner together with the first row that carries the
  partner's id; the first member of a couple carries an id that no member of an earlier
  couple carries, so no couple is returned twice, in either order; and every row with a
  partner has its id among the members. There is a snapshot that \<^verbatim>\<open>load_population\<close>
  accepts whose only row names a partner id absent from the table; on it
  \<^verbatim>\<open>get_all_couples\<close> raises \<^verbatim>\<open>StopIteration\<close>.
\<close>

theorem couple_extraction_total:
  "(referential_integrity population \<longrightarrow>
      (\<exists>cs. get_all_couples population = Inr cs \<and>
         (\<forall>c \<in> set cs. fst c < length population \<and> snd c < length population \<and>
            partner_id (population ! fst c) \<noteq> -1 \<and>
            agent_id (population ! snd c) = partner_id (population ! fst c)) \<and>
         (\<forall>l < length cs. \<forall>k < l.
            agent_id (population ! fst (cs ! l)) \<noteq> agent_id (population ! fst (cs ! k)) \<and>
            agent_id (population ! fst (cs ! l)) \<noteq> agent_id (population ! snd (cs ! k))) \<and>
         distinct cs \<and>
         (\<forall>c \<in> set cs. prod.swap c \<in> set cs \<longrightarrow> fst c = snd c) \<and>
         (\<forall>a \<in> set population. partner_id a \<noteq> -1 \<longrightarrow>
            agent_id a \<in> member_ids population cs))) \<and>
   (\<exists>content table. load_population (Some content) = Inr table \<and>
      \<not> referential_integrity table \<and> get_all_couples table = Inl StopIteration)"
proof (intro conjI impI)
  show "\<exists>content table. load_population (Some content) = Inr table \<and>
      \<not> referential_integrity table \<and> get_all_couples table = Inl StopIteration"
    using dangling_example dangling_not_integral dangling_couples by blast
next
  assume ri: "referential_integrity population"
  have "set [0..<length population] \<subseteq> {0..<length population}" by simp
  from couples_loop_total[OF ri this, of "[]" "{}"]
  obtain cs where cs: "get_all_couples population = Inr cs"
    by (auto simp add: get_all_couples_def)
  note ok = get_all_couples_ok[OF cs]
  have a: "\<forall>c \<in> set cs. fst c < length population \<and> snd c < length population \<and>
            partner_id (population ! fst c) \<noteq> -1 \<and>
            agent_id (population ! snd c) = partner_id (population ! fst c)"
  proof
    fix c assume "c \<in> set cs"
    with ok(1) have b: "fst c < length population" "snd c < length population"
       "partner_id (population ! fst c) \<noteq> -1"
       "first_index (\<lambda>x. agent_id x = partner_id (population ! fst c)) population = Some (snd c)"
      by (simp_all add: couples_ok_def)
    from first_index_Some[OF b(4)] b(1-3)
    show "fst c < length population \<and> snd c < length population \<and>
            partner_id (population ! fst c) \<noteq> -1 \<and>
            agent_id (population ! snd c) = partner_id (population ! fst c)" by simp
  qed
  have b: "\<forall>l < length cs. \<forall>k < l.
            agent_id (population ! fst (cs ! l)) \<noteq> agent_id (population ! fst (cs ! k)) \<and>
            agent_id (population ! fst (cs ! l)) \<noteq> agent_id (population ! snd (cs ! k))"
    using couples_ok_earlier[OF ok(1)] by blast
  have c: "distinct cs" by (rule couples_ok_distinct[OF ok(1)])
  have d: "\<forall>c \<in> set cs. prod.swap c \<in> set cs \<longrightarrow> fst c = snd c"
    using couples_ok_no_mirror[OF ok(1)] by blast
  show "\<exists>cs. get_all_couples population = Inr cs \<and>
         (\<forall>c \<in> set cs. fst c < length population \<and> snd c < length population \<and>
            partner_id (population ! fst c) \<noteq> -1 \<and>
            agent_id (population ! snd c) = partner_id (population ! fst c)) \<and>
         (\<forall>l < length cs. \<forall>k < l.
            agent_id (population ! fst (cs ! l)) \<noteq> agent_id (population ! fst (cs ! k)) \<and>
            agent_id (population ! fst (cs ! l)) \<noteq> agent_id (population ! snd (cs ! k))) \<and>
         distinct cs \<and>
         (\<forall>c \<in> set cs. prod.swap c \<in> set cs \<longrightarrow> fst c = snd c) \<and>
         (\<forall>a \<in> set population. partner_id a \<noteq> -1 \<longrightarrow>
            agent_id a \<in> member_ids population cs)"
    using cs a b c d ok(2) by blast
qed

theorem couple_extraction_total_witness:
  "referential_integrity [person 0 ''M'' 30 1 80 1 1 0, person 1 ''F'' 28 1 80 1 0 0,
       person 2 ''M'' 25 1 80 1 (-1) 0] \<and>
   get_all_couples [person 0 ''M'' 30 1 80 1 1 0, person 1 ''F'' 28 1 80 1 0 0,
       person 2 ''M'' 25 1 80 1 (-1) 0] = Inr [(0, 1)]"
  using couple_extraction_total[of "[person 0 ''M'' 30 1 80 1 1 0, person 1 ''F'' 28 1 80 1 0 0,
       person 2 ''M'' 25 1 80 1 (-1) 0]"]
  by (simp add: referential_integrity_def get_all_couples_def person_def Let_def)

section \<open>Integers as text\<close>

lemma is_digit_digit_char: "d < 10 \<Longrightarrow> is_digit (digit_char d)"
  by (simp add: is_digit_def digit_char_def)

lemma digit_val_digit_char: "d < 10 \<Longrightarrow> digit_val (digit_char d) = d"
  by (simp add: digit_val_def digit_char_def)

lemma is_digit_not_special:
  assumes "is_digit c"
  shows "\<not> is_space c" "c \<noteq> CHR '',''" "c \<noteq> newline" "c \<noteq> CHR ''_''"
    "c \<noteq> CHR ''-''" "c \<noteq> CHR ''+''"
  using assms by (auto simp add: is_digit_def is_space_def newline_def)

lemma nat_digits_digits: "\<forall>c \<in> set (nat_digits n). is_digit c"
proof (induction n rule: nat_digits.induct)
  case (1 n)
  show ?case
  proof (cases "n < 10")
    case True
    then show ?thesis by (subst nat_digits.simps) (simp add: is_digit_digit_char)
  next
    case False
    with 1 have "\<forall>c \<in> set (nat_digits (n div 10)). is_digit c" by simp
    moreover have "is_digit (digit_char (n mod 10))" by (simp add: is_digit_digit_char)
    ultimately show ?thesis using False by (subst nat_digits.simps) simp
  qed
qed

lemma nat_digits_nonempty: "nat_digits n \<noteq> []"
  by (subst nat_digits.simps) simp

lemma py_digits_snoc:
  assumes "ds \<noteq> []" "\<forall>d \<in> set ds. is_digit d" "is_digit c"
  shows "py_digits acc (ds @ [c]) =
         map_option (\<lambda>v. 10 * v + digit_val c) (py_digits acc ds)"
  using assms(1,2)
proof (induction ds arbitrary: acc)
  case Nil
  then show ?case by simp
next
  case (Cons d ds)
  from Cons.prems have d: "is_digit d" by simp
  show ?case
  proof (cases ds)
    case Nil
    with d assms(3) is_digit_not_special(4)[OF assms(3)] show ?thesis by simp
  next
    case (Cons e es)
    with Cons.prems have e: "is_digit e" by simp
    have ne: "e \<noteq> CHR ''_''" by (rule is_digit_not_special(4)[OF e])
    have "ds \<noteq> []" using Cons by simp
    moreover have "\<forall>d \<in> set ds. is_digit d" using Cons.prems by simp
    ultimately have IH: "py_digits (10 * acc + digit_val d) (ds @ [c]) =
        map_option (\<lambda>v. 10 * v + digit_val c) (py_digits (10 * acc + digit_val d) ds)"
      by (rule Cons.IH)
    show ?thesis using d ne IH Cons by simp
  qed
qed

lemma py_digits_nat_digits: "py_digits 0 (nat_digits n) = Some n"
proof (induction n rule: nat_digits.induct)
  case (1 n)
  show ?case
  proof (cases "n < 10")
    case True
    then show ?thesis
      by (subst nat_digits.simps) (simp add: is_digit_digit_char digit_val_digit_char)
  next
    case False
    with 1 have IH: "py_digits 0 (nat_digits (n div 10)) = Some (n div 10)" by simp
    have "py_digits 0 (nat_digits (n div 10) @ [digit_char (n mod 10)]) =
        map_option (\<lambda>v. 10 * v + digit_val (digit_char (n mod 10)))
          (py_digits 0 (nat_digits (n div 10)))"
      by (rule py_digits_snoc[OF nat_digits_nonempty]) (simp_all add: nat_digits_digits is_digit_digit_char)
    then have "py_digits 0 (nat_digits (n div 10) @ [digit_char (n mod 10)]) = Some n"
      by (simp add: IH digit_val_digit_char)
    then show ?thesis using False by (subst nat_digits.simps) simp
  qed
qed

lemma is_int_char_not_special:
  assumes "is_int_char c"
  shows "\<not> is_space c" "c \<noteq> CHR '',''" "c \<noteq> newline"
  using assms by (auto simp add: is_int_char_def is_digit_def is_space_def newline_def)

lemma py_str_chars: "\<forall>c \<in> set (py_str i). is_int_char c"
  using nat_digits_digits by (simp add: py_str_def is_int_char_def)

lemma py_str_nonempty: "py_str i \<noteq> []"
  by (simp add: py_str_def nat_digits_nonempty)

lemma is_c_space_is_space: "is_c_space c \<Longrightarrow> is_space c"
  by (auto simp add: is_c_space_def is_space_def)

lemma int_strip_no_space:
  assumes "s \<noteq> []" "\<not> is_c_space (hd s)" "\<not> is_c_space (last s)"
  shows "int_strip s = s"
proof -
  have a: "dropWhile is_c_space s = s" using assms(1,2) by (cases s) simp_all
  have e: "butlast s @ [last s] = s" by (rule append_butlast_last_id[OF assms(1)])
  have "rev (butlast s @ [last s]) = last s # rev (butlast s)" by simp
  then have r: "rev s = last s # rev (butlast s)" by (simp only: e)
  have "dropWhile is_c_space (last s # rev (butlast s)) = last s # rev (butlast s)"
    using assms(3) by simp
  then have "dropWhile is_c_space (rev s) = rev s" by (simp only: r)
  with a show ?thesis by (simp add: int_strip_def)
qed

lemma int_strip_py_str: "int_strip (py_str i) = py_str i"
proof (rule int_strip_no_space[OF py_str_nonempty])
  have "hd (py_str i) \<in> set (py_str i)" "last (py_str i) \<in> set (py_str i)"
    using py_str_nonempty by simp_all
  with py_str_chars is_int_char_not_special(1) is_c_space_is_space
  show "\<not> is_c_space (hd (py_str i))" "\<not> is_c_space (last (py_str i))" by blast+
qed

lemma py_int_py_str: "py_int (py_str i) = Inr i"
proof (cases "i < 0")
  case True
  then have "py_str i = CHR ''-'' # nat_digits (nat (- i))" by (simp add: py_str_def)
  moreover have "int_strip (py_str i) = py_str i" by (rule int_strip_py_str)
  ultimately have "int_strip (py_str i) = CHR ''-'' # nat_digits (nat (- i))" by simp
  then show ?thesis using True by (simp add: py_int_def py_digits_nat_digits)
next
  case False
  then have e: "py_str i = nat_digits (nat i)" by (simp add: py_str_def)
  obtain c cs where cs: "nat_digits (nat i) = c # cs"
    using nat_digits_nonempty[of "nat i"] by (cases "nat_digits (nat i)") simp_all
  then have "is_digit c" using nat_digits_digits[of "nat i"] by simp
  then have c: "c \<noteq> CHR ''-''" "c \<noteq> CHR ''+''" by (simp_all add: is_digit_not_special)
  have "int_strip (py_str i) = c # cs" using int_strip_py_str[of i] e cs by simp
  moreover have "py_digits 0 (c # cs) = Some (nat i)"
    using py_digits_nat_digits[of "nat i"] cs by simp
  ultimately show ?thesis using c False by (simp add: py_int_def)
qed

section \<open>Lines and fields\<close>

lemma format_line_fields: "format_line p = join_commas (csv_fields p) @ [newline]"
  by (simp add: format_line_def csv_fields_def)

lemma split_from_no_sep: "sep \<notin> set xs \<Longrightarrow> split_from sep cur xs = [cur @ xs]"
  by (induction xs arbitrary: cur) auto

lemma split_from_sep:
  "sep \<notin> set xs \<Longrightarrow> split_from sep cur (xs @ sep # rest) = (cur @ xs) # split_from sep [] rest"
  by (induction xs arbitrary: cur) auto

lemma py_split_join:
  assumes "fs \<noteq> []" "\<forall>f \<in> set fs. CHR '','' \<notin> set f"
  shows "py_split CHR '','' (join_commas fs) = fs"
  using assms
proof (induction fs rule: join_commas.induct)
  case 1
  then show ?case by simp
next
  case (2 f)
  then show ?case by (simp add: py_split_def split_from_no_sep)
next
  case (3 f f' fs)
  then have "py_split CHR '','' (join_commas (f' # fs)) = f' # fs" by simp
  moreover have "CHR '','' \<notin> set f" using "3.prems" by simp
  ultimately show ?case by (simp add: py_split_def split_from_sep)
qed

lemma readlines_from_line:
  "newline \<notin> set xs \<Longrightarrow>
   readlines_from cur (xs @ newline # rest) = (cur @ xs @ [newline]) # readlines_from [] rest"
  by (induction xs arbitrary: cur) auto

lemma strip_line:
  assumes "body \<noteq> []" "\<not> is_space (hd body)" "\<not> is_space (last body)"
  shows "strip (body @ [newline]) = body"
proof -
  have a: "dropWhile is_space (body @ [newline]) = body @ [newline]"
    using assms(1,2) by (cases body) simp_all
  have n: "is_space newline" by (simp add: is_space_def newline_def)
  have e: "butlast body @ [last body] = body" by (rule append_butlast_last_id[OF assms(1)])
  have "rev (butlast body @ [last body]) = last body # rev (butlast body)" by simp
  then have r: "rev body = last body # rev (butlast body)" by (simp only: e)
  have "dropWhile is_space (newline # last body # rev (butlast body)) =
      last body # rev (butlast body)"
    using n assms(3) by simp
  then have "dropWhile is_space (rev (body @ [newline])) = rev body"
    by (simp add: r)
  with a show ?thesis by (simp add: strip_def)
qed

lemma join_commas_hd:
  "f \<noteq> [] \<Longrightarrow> join_commas (f # fs) \<noteq> [] \<and> hd (join_commas (f # fs)) = hd f"
  by (cases fs) simp_all

lemma join_commas_last:
  "fs \<noteq> [] \<Longrightarrow> last fs \<noteq> [] \<Longrightarrow>
   join_commas fs \<noteq> [] \<and> last (join_commas fs) = last (last fs)"
  by (induction fs rule: join_commas.induct) auto

lemma set_join_commas:
  "set (join_commas fs) \<subseteq> insert CHR '','' (\<Union>f \<in> set fs. set f)"
  by (induction fs rule: join_commas.induct) auto

section \<open>Save and load\<close>

lemma py_str_clean: "CHR '','' \<notin> set (py_str i)" "newline \<notin> set (py_str i)"
  using py_str_chars[of i] is_int_char_not_special(2,3) by blast+

lemma csv_fields_commas:
  "CHR '','' \<notin> set (sex p) \<Longrightarrow> \<forall>f \<in> set (csv_fields p). CHR '','' \<notin> set f"
  by (simp add: csv_fields_def py_str_clean)

lemma csv_fields_newlines:
  "newline \<notin> set (sex p) \<Longrightarrow> \<forall>f \<in> set (csv_fields p). newline \<notin> set f"
  by (simp add: csv_fields_def py_str_clean)

lemma line_no_newline:
  assumes "newline \<notin> set (sex p)"
  shows "newline \<notin> set (join_commas (csv_fields p))"
proof
  assume "newline \<in> set (join_commas (csv_fields p))"
  with set_join_commas[of "csv_fields p"]
  have "newline = CHR '','' \<or> (\<exists>f \<in> set (csv_fields p). newline \<in> set f)" by auto
  moreover have "newline \<noteq> CHR '',''" by (simp add: newline_def)
  ultimately show False using csv_fields_newlines[OF assms] by blast
qed

lemma strip_format_line: "strip (format_line p) = join_commas (csv_fields p)"
  unfolding format_line_fields
proof (rule strip_line)
  have i: "py_str (agent_id p) \<noteq> []" by (rule py_str_nonempty)
  have h: "join_commas (csv_fields p) \<noteq> [] \<and>
      hd (join_commas (csv_fields p)) = hd (py_str (agent_id p))"
    unfolding csv_fields_def by (rule join_commas_hd[OF i])
  then show "join_commas (csv_fields p) \<noteq> []" by simp
  have "hd (py_str (agent_id p)) \<in> set (py_str (agent_id p))" using i by simp
  with py_str_chars is_int_char_not_special(1) h
  show "\<not> is_space (hd (join_commas (csv_fields p)))" by metis
  have l: "last (csv_fields p) = py_str (children_count p)" by (simp add: csv_fields_def)
  have c: "py_str (children_count p) \<noteq> []" by (rule py_str_nonempty)
  have "csv_fields p \<noteq> []" by (simp add: csv_fields_def)
  from join_commas_last[OF this] l c
  have e: "last (join_commas (csv_fields p)) = last (py_str (children_count p))" by simp
  have "last (py_str (children_count p)) \<in> set (py_str (children_count p))" using c by simp
  with py_str_chars is_int_char_not_special(1) e
  show "\<not> is_space (last (join_commas (csv_fields p)))" by metis
qed

lemma parse_person_fields: "parse_person (csv_fields p) = Inr p"
  by (simp add: parse_person_def int_item_def item_at_def ebind_def csv_fields_def
      py_int_py_str)

lemma load_line_format:
  assumes "CHR '','' \<notin> set (sex p)"
  shows "load_lines (format_line p # rest) population = load_lines rest (population @ [p])"
proof -
  have s: "strip (format_line p) = join_commas (csv_fields p)" by (rule strip_format_line)
  have "csv_fields p \<noteq> []" by (simp add: csv_fields_def)
  from py_split_join[OF this csv_fields_commas[OF assms]]
  have sp: "py_split CHR '','' (join_commas (csv_fields p)) = csv_fields p" .
  have ne: "join_commas (csv_fields p) \<noteq> []"
    using join_commas_hd[OF py_str_nonempty, of "agent_id p"] by (simp add: csv_fields_def)
  show ?thesis by (simp add: s sp ne parse_person_fields Let_def)
qed

lemma load_lines_format:
  "\<forall>p \<in> set table. CHR '','' \<notin> set (sex p) \<Longrightarrow>
   load_lines (map format_line table) population = Inr (population @ table)"
proof (induction table arbitrary: population)
  case Nil
  then show ?case by simp
next
  case (Cons p table)
  then have c: "CHR '','' \<notin> set (sex p)" and r: "\<forall>p \<in> set table. CHR '','' \<notin> set (sex p)"
    by simp_all
  have "load_lines (map format_line (p # table)) population =
      load_lines (map format_line table) (population @ [p])"
    using load_line_format[OF c] by simp
  also have "\<dots> = Inr ((population @ [p]) @ table)" by (rule Cons.IH[OF r])
  finally show ?case by simp
qed

lemma readlines_lines:
  "\<forall>p \<in> set table. newline \<notin> set (sex p) \<Longrightarrow>
   readlines_from [] (concat (map format_line table)) = map format_line table"
proof (induction table)
  case Nil
  then show ?case by simp
next
  case (Cons p table)
  then have n: "newline \<notin> set (join_commas (csv_fields p))" by (simp add: line_no_newline)
  have fl: "format_line p = join_commas (csv_fields p) @ [newline]" by (rule format_line_fields)
  have IH: "readlines_from [] (concat (map format_line table)) = map format_line table"
    using Cons by simp
  have "concat (map format_line (p # table)) =
      join_commas (csv_fields p) @ newline # concat (map format_line table)"
    by (simp add: fl)
  moreover have "readlines_from [] (join_commas (csv_fields p) @ newline # concat (map format_line table)) =
      ([] @ join_commas (csv_fields p) @ [newline]) #
      readlines_from [] (concat (map format_line table))"
    by (rule readlines_from_line[OF n])
  ultimately have "readlines_from [] (concat (map format_line (p # table))) =
      (join_commas (csv_fields p) @ [newline]) # map format_line table"
    by (simp only: IH append_Nil)
  then show ?case by (simp only: fl list.map)
qed

lemma readlines_save:
  assumes "\<forall>p \<in> set table. newline \<notin> set (sex p)"
  shows "readlines (save_population table) = header # map format_line table"
proof -
  let ?h = "''id,sex,age,alive,health,fertility,partner_id,children_count''"
  have n: "newline \<notin> set ?h" by (simp add: newline_def)
  have "readlines_from [] (?h @ newline # concat (map format_line table)) =
      ([] @ ?h @ [newline]) # readlines_from [] (concat (map format_line table))"
    by (rule readlines_from_line[OF n])
  then show ?thesis
    using readlines_lines[OF assms]
    by (simp add: readlines_def save_population_def header_def)
qed

lemma load_save:
  assumes "\<forall>p \<in> set table. CHR '','' \<notin> set (sex p) \<and> newline \<notin> set (sex p)"
  shows "load_population (Some (save_population table)) = Inr table"
proof -
  have "readlines (save_population table) = header # map format_line table"
    using assms by (intro readlines_save) blast
  moreover have "load_lines (map format_line table) [] = Inr ([] @ table)"
    using assms by (intro load_lines_format) blast
  ultimately show ?thesis by (simp add: load_population_def)
qed

text \<open>
  C9. For a table whose rows have sex "M" or "F" (the integer fields may hold any
  integer): loading the file that \<^verbatim>\<open>save_population\<close> writes gives the table back,
  field for field, so saving what was loaded writes the same file again. The flags 0
  and 1 are written as the digits 0 and 1, and the partner_id of a single row as -1.
\<close>

theorem save_load_round_trip:
  assumes "valid_table table"
  shows "load_population (Some (save_population table)) = Inr table \<and>
         (case load_population (Some (save_population table)) of
            Inl e \<Rightarrow> False
          | Inr loaded \<Rightarrow> save_population loaded = save_population table) \<and>
         py_str 0 = ''0'' \<and> py_str 1 = ''1'' \<and> py_str (- 1) = ''-1''"
proof -
  have "\<forall>p \<in> set table. CHR '','' \<notin> set (sex p) \<and> newline \<notin> set (sex p)"
    using assms by (auto simp add: valid_table_def newline_def)
  then have l: "load_population (Some (save_population table)) = Inr table" by (rule load_save)
  have "py_str 0 = ''0''" "py_str 1 = ''1''" "py_str (- 1) = ''-1''"
    by code_simp+
  with l show ?thesis by simp
qed

theorem save_load_round_trip_witness:
  "valid_table [person 0 ''M'' 33 1 73 1 1 2, person 1 ''F'' 3 0 73 0 (-1) 0] \<and>
   save_population [person 0 ''M'' 33 1 73 1 1 2, person 1 ''F'' 3 0 73 0 (-1) 0] =
     header @ ''0,M,33,1,73,1,1,2'' @ [newline] @ ''1,F,3,0,73,0,-1,0'' @ [newline] \<and>
   load_population (Some (header @ ''0,M,33,1,73,1,1,2'' @ [newline] @
       ''1,F,3,0,73,0,-1,0'' @ [newline])) =
     Inr [person 0 ''M'' 33 1 73 1 1 2, person 1 ''F'' 3 0 73 0 (-1) 0]"
proof -
  have v: "valid_table [person 0 ''M'' 33 1 73 1 1 2, person 1 ''F'' 3 0 73 0 (-1) 0]"
    by (simp add: valid_table_def person_def)
  have s: "save_population [person 0 ''M'' 33 1 73 1 1 2, person 1 ''F'' 3 0 73 0 (-1) 0] =
     header @ ''0,M,33,1,73,1,1,2'' @ [newline] @ ''1,F,3,0,73,0,-1,0'' @ [newline]"
    by code_simp
  from save_load_round_trip[OF v] v s show ?thesis by simp
qed

section \<open>Loading: errors and the driver's fallback\<close>





lemma load_or_initialize_empty:
  "load_population file = Inr [] \<Longrightarrow> load_or_initialize file g = regenerate g"
  by (simp add: load_or_initialize_def)

lemma load_or_initialize_loaded:
  "load_population file = Inr population \<Longrightarrow> population \<noteq> [] \<Longrightarrow>
   load_or_initialize file g = (population, file, g)"
  by (simp add: load_or_initialize_def)



lemma ebind_Inl: "m = Inl e \<Longrightarrow> ebind m f = Inl e"
  by (simp add: ebind_def)

lemma ebind_fails: "(\<And>x. \<exists>e. f x = Inl e) \<Longrightarrow> \<exists>e. ebind m f = Inl e"
  by (cases m) (simp_all add: ebind_def)

lemma int_item_short: "length item \<le> k \<Longrightarrow> int_item item k = Inl IndexError"
  by (simp add: int_item_def item_at_def ebind_def)

lemma item_at_short: "length item \<le> k \<Longrightarrow> item_at item k = Inl IndexError"
  by (simp add: item_at_def)

lemma int_item_bad:
  "k < length item \<Longrightarrow> py_int (item ! k) = Inl ValueError \<Longrightarrow> int_item item k = Inl ValueError"
  by (simp add: int_item_def item_at_def ebind_def)










lemma bad_int_example:
  "load_population (Some (header @ ''0,M,x,1,73,1,8,0'' @ [newline])) = Inl ValueError"
  by code_simp


lemma separator_line_example:
  "load_population (Some (header @ [CHR 0x1C] @ ''0,M, 33,1,73,1,8,0'' @ [newline])) =
     Inr [person 0 ''M'' 33 1 73 1 8 0]"
  by code_simp








section \<open>A step returns\<close>

lemma symmetric_referential:
  "partner_symmetric population \<Longrightarrow> referential_integrity population"
  unfolding partner_symmetric_def referential_integrity_def by blast

lemma reproduce_returns:
  "population \<noteq> [] \<Longrightarrow> \<exists>population' g'. reproduce population couples g = Inr (population', g')"
proof -
  assume "population \<noteq> []"
  then have "map agent_id population \<noteq> []" by simp
  from py_max_nonempty[OF this] obtain mx where "py_max (map agent_id population) = Inr mx" ..
  then show ?thesis by (simp add: reproduce_def Let_def)
qed

text \<open>
  On a non-empty table with distinct, non-negative ids and symmetric partner links no
  pass of the step raises: the step returns a table.
\<close>

lemma advance_one_step_returns:
  assumes "valid_ids population" "partner_symmetric population" "population \<noteq> []"
  shows "\<exists>population' g'. advance_one_step population g = Inr (population', g')"
proof -
  let ?p4 = "fst (form_pairs (fertility_update_pop (aging_update (fst (death population g))))
              (snd (death population g)))"
  let ?g2 = "snd (form_pairs (fertility_update_pop (aging_update (fst (death population g))))
              (snd (death population g)))"
  have "partner_symmetric ?p4" by (rule step_partner_symmetric(1)[OF assms(1,2)])
  then have ri: "referential_integrity ?p4" by (rule symmetric_referential)
  have "set [0..<length ?p4] \<subseteq> {0..<length ?p4}" by simp
  from couples_loop_total[OF ri this, of "[]" "{}"]
  obtain cs where cs: "get_all_couples ?p4 = Inr cs" by (auto simp add: get_all_couples_def)
  have "length ?p4 = length population" by (simp add: form_pairs_length vital_length)
  with assms(3) have "?p4 \<noteq> []" by auto
  from reproduce_returns[OF this, of cs ?g2]
  obtain population' g' where "reproduce ?p4 cs ?g2 = Inr (population', g')" by blast
  with cs have "advance_one_step population g = Inr (population', g')"
    by (simp add: advance_one_step_stages)
  then show ?thesis by blast
qed

end
